theory Spec2Isabelle
  imports Complex_Main "HOL-Library.AList" "HOL-Library.Char_ord" "HOL-Library.List_Lexorder"
    "HOL-Library.Product_Lexorder" "HOL-Library.Multiset"
begin

section \<open>Python values\<close>

text \<open>
  The values that reach \<open>build_xml\<close> come out of sqlite3 rows: \<open>None\<close> for NULL, \<open>int\<close>,
  \<open>float\<close> and \<open>str\<close>. A \<open>str\<close> is kept as its UTF-8 bytes. A float read from SQLite is
  a finite IEEE double, a signed zero or an infinity (SQLite stores NaN as NULL); a finite
  double is given by its exact rational value. A float computed by the program may also be
  NaN, which is \<open>None\<close> in the type \<open>pyfloat option\<close>.
\<close>

datatype pyerr = TypeError | ValueError | ZeroDivisionError | OverflowError | KeyError

datatype pyfloat = Fin rat | NegZero | PosInf | NegInf

datatype pyval = PNone | PInt int | PFloat pyfloat | PStr string

subsection \<open>Decimal rendering of integers: \<open>str(i)\<close>\<close>

definition digit_char :: "int \<Rightarrow> char" where
  "digit_char d =
     (if d = 0 then CHR ''0'' else if d = 1 then CHR ''1'' else if d = 2 then CHR ''2''
      else if d = 3 then CHR ''3'' else if d = 4 then CHR ''4'' else if d = 5 then CHR ''5''
      else if d = 6 then CHR ''6'' else if d = 7 then CHR ''7'' else if d = 8 then CHR ''8''
      else CHR ''9'')"

function digits :: "int \<Rightarrow> string" where
  "digits n = (if n < 10 then [digit_char n] else digits (n div 10) @ [digit_char (n mod 10)])"
  by pat_completeness auto
termination
  by (relation "measure nat") auto

declare digits.simps [simp del]

definition str_int :: "int \<Rightarrow> string" where
  "str_int i = (if i < 0 then CHR ''-'' # digits (- i) else digits i)"

definition str_nat :: "nat \<Rightarrow> string" where
  "str_nat n = digits (int n)"

text \<open>Reading a decimal string back, to show that \<open>str\<close> is one-to-one on integers.\<close>

definition digit_val :: "char \<Rightarrow> int" where
  "digit_val c = int (of_char c) - 48"

definition digits_val :: "string \<Rightarrow> int" where
  "digits_val s = foldl (\<lambda>a c. 10 * a + digit_val c) 0 s"

subsection \<open>Rounding to a double and to decimals\<close>

text \<open>
  \<open>round_half_even\<close> is the rounding of \<open>round(x)\<close> and of the \<open>f\<close> format. \<open>round_double\<close>
  is IEEE round-to-nearest-even into binary64: 53 significant bits, smallest exponent
  \<open>-1074\<close>, overflow to an infinity from \<open>2^1024\<close> on.
\<close>

definition round_half_even :: "rat \<Rightarrow> int" where
  "round_half_even q =
     (let f = \<lfloor>q\<rfloor>; r = q - of_int f
      in if r < 1 / 2 then f else if 1 / 2 < r then f + 1 else if even f then f else f + 1)"

text \<open>Powers of two by repeated squaring, so that \<open>2^1024\<close> is a few steps.\<close>

function pow2_nonneg :: "int \<Rightarrow> rat" where
  "pow2_nonneg e =
     (if e \<le> 0 then 1
      else let h = pow2_nonneg (e div 2) in if even e then h * h else 2 * h * h)"
  by pat_completeness auto
termination
  by (relation "measure nat") auto

declare pow2_nonneg.simps [simp del]

definition pow2 :: "int \<Rightarrow> rat" where
  "pow2 e = (if 0 \<le> e then pow2_nonneg e else 1 / pow2_nonneg (- e))"

function bit_length :: "int \<Rightarrow> int" where
  "bit_length n = (if n \<le> 0 then 0 else 1 + bit_length (n div 2))"
  by pat_completeness auto
termination
  by (relation "measure nat") auto

declare bit_length.simps [simp del]

definition floor_log2 :: "rat \<Rightarrow> int" where
  "floor_log2 a =
     (let (n, d) = quotient_of a;
          e = bit_length n - bit_length d
      in if pow2 e \<le> a then e else e - 1)"

definition mk_zero :: "bool \<Rightarrow> pyfloat" where
  "mk_zero s = (if s then NegZero else Fin 0)"

definition mk_inf :: "bool \<Rightarrow> pyfloat" where
  "mk_inf s = (if s then NegInf else PosInf)"

definition round_double :: "rat \<Rightarrow> pyfloat" where
  "round_double q =
     (if q = 0 then Fin 0
      else let a = \<bar>q\<bar>;
               k = max (floor_log2 a - 52) (- 1074);
               m = round_half_even (a / pow2 k);
               v = of_int m * pow2 k
           in if pow2 1024 \<le> v then mk_inf (q < 0)
              else if m = 0 then mk_zero (q < 0)
              else Fin (if q < 0 then - v else v))"

text \<open>The format \<open>f"{x:.nf}"\<close> of a float: the exact value rounded half-even to \<open>n\<close> decimals.\<close>

definition fixed_digits :: "nat \<Rightarrow> rat \<Rightarrow> string" where
  "fixed_digits n a =
     (let r = round_half_even (a * 10 ^ n);
          frac = digits (r mod 10 ^ n)
      in digits (r div 10 ^ n) @
         (if n = 0 then [] else CHR ''.'' # replicate (n - length frac) CHR ''0'' @ frac))"

fun format_f :: "nat \<Rightarrow> pyfloat option \<Rightarrow> string" where
  "format_f n None = ''nan''"
| "format_f n (Some PosInf) = ''inf''"
| "format_f n (Some NegInf) = ''-inf''"
| "format_f n (Some NegZero) = CHR ''-'' # fixed_digits n 0"
| "format_f n (Some (Fin q)) = (if q < 0 then CHR ''-'' # fixed_digits n (- q) else fixed_digits n q)"

subsection \<open>Float division\<close>

definition is_zero :: "pyfloat \<Rightarrow> bool" where
  "is_zero x = (x = Fin 0 \<or> x = NegZero)"

definition is_inf :: "pyfloat \<Rightarrow> bool" where
  "is_inf x = (x = PosInf \<or> x = NegInf)"

fun sign_bit :: "pyfloat \<Rightarrow> bool" where
  "sign_bit (Fin q) = (q < 0)"
| "sign_bit NegZero = True"
| "sign_bit PosInf = False"
| "sign_bit NegInf = True"

fun fval :: "pyfloat \<Rightarrow> rat" where
  "fval (Fin q) = q"
| "fval x = 0"

text \<open>\<open>a / b\<close> on floats: a zero divisor raises before anything else is looked at.\<close>

fun fdiv :: "pyfloat option \<Rightarrow> pyfloat option \<Rightarrow> pyerr + pyfloat option" where
  "fdiv a None = Inr None"
| "fdiv None (Some y) = (if is_zero y then Inl ZeroDivisionError else Inr None)"
| "fdiv (Some x) (Some y) =
     (if is_zero y then Inl ZeroDivisionError
      else if is_inf x then (if is_inf y then Inr None else Inr (Some (mk_inf (sign_bit x \<noteq> sign_bit y))))
      else if is_inf y \<or> is_zero x then Inr (Some (mk_zero (sign_bit x \<noteq> sign_bit y)))
      else Inr (Some (round_double (fval x / fval y))))"

definition int_to_float :: "int \<Rightarrow> pyerr + pyfloat" where
  "int_to_float i = (let x = round_double (of_int i) in if is_inf x then Inl OverflowError else Inr x)"

subsection \<open>Built-in operations\<close>

text \<open>
  Two built-ins are left open: the shortest-repr \<open>str(x)\<close> of a float and the parser
  \<open>float(s)\<close> of a string. Every result below holds for any choice of them.
\<close>

record pybuiltins =
  float_repr :: "pyfloat \<Rightarrow> string"
  float_of_str :: "string \<Rightarrow> pyerr + pyfloat option"

definition and_then :: "pyerr + 'a \<Rightarrow> ('a \<Rightarrow> pyerr + 'b) \<Rightarrow> pyerr + 'b" where
  "and_then m f = (case m of Inl e \<Rightarrow> Inl e | Inr x \<Rightarrow> f x)"

fun map_err :: "('a \<Rightarrow> pyerr + 'b) \<Rightarrow> 'a list \<Rightarrow> pyerr + 'b list" where
  "map_err f [] = Inr []"
| "map_err f (x # xs) = and_then (f x) (\<lambda>y. and_then (map_err f xs) (\<lambda>ys. Inr (y # ys)))"

fun truthy :: "pyval \<Rightarrow> bool" where
  "truthy PNone = False"
| "truthy (PInt i) = (i \<noteq> 0)"
| "truthy (PFloat x) = (\<not> is_zero x)"
| "truthy (PStr s) = (s \<noteq> [])"

definition py_or :: "pyval \<Rightarrow> pyval \<Rightarrow> pyval" where
  "py_or a b = (if truthy a then a else b)"

fun py_str :: "pybuiltins \<Rightarrow> pyval \<Rightarrow> string" where
  "py_str L PNone = ''None''"
| "py_str L (PInt i) = str_int i"
| "py_str L (PFloat x) = float_repr L x"
| "py_str L (PStr s) = s"

fun py_round :: "pyval \<Rightarrow> pyerr + int" where
  "py_round (PInt i) = Inr i"
| "py_round (PFloat (Fin q)) = Inr (round_half_even q)"
| "py_round (PFloat NegZero) = Inr 0"
| "py_round (PFloat PosInf) = Inl OverflowError"
| "py_round (PFloat NegInf) = Inl OverflowError"
| "py_round PNone = Inl TypeError"
| "py_round (PStr s) = Inl TypeError"

text \<open>
  \<open>f"{v:.nf}"\<close>: \<open>None\<close> has no format of its own (TypeError), a \<open>str\<close> rejects the code
  \<open>f\<close> (ValueError), an \<open>int\<close> is converted to a float first.
\<close>

fun py_format_f :: "nat \<Rightarrow> pyval \<Rightarrow> pyerr + string" where
  "py_format_f n PNone = Inl TypeError"
| "py_format_f n (PStr s) = Inl ValueError"
| "py_format_f n (PInt i) = and_then (int_to_float i) (\<lambda>x. Inr (format_f n (Some x)))"
| "py_format_f n (PFloat x) = Inr (format_f n (Some x))"

fun py_float :: "pybuiltins \<Rightarrow> pyval \<Rightarrow> pyerr + pyfloat option" where
  "py_float L PNone = Inl TypeError"
| "py_float L (PInt i) = and_then (int_to_float i) (\<lambda>x. Inr (Some x))"
| "py_float L (PFloat x) = Inr (Some x)"
| "py_float L (PStr s) = float_of_str L s"

fun py_truediv :: "pyval \<Rightarrow> pyfloat option \<Rightarrow> pyerr + pyfloat option" where
  "py_truediv PNone y = Inl TypeError"
| "py_truediv (PStr s) y = Inl TypeError"
| "py_truediv (PInt i) y = and_then (int_to_float i) (\<lambda>x. fdiv (Some x) y)"
| "py_truediv (PFloat x) y = fdiv (Some x) y"

text \<open>\<open>urllib.parse.quote\<close> with its default \<open>safe='/'\<close>; anything but a string is a TypeError.\<close>

definition always_safe :: "char \<Rightarrow> bool" where
  "always_safe c =
     (let n = (of_char c :: nat)
      in (65 \<le> n \<and> n \<le> 90) \<or> (97 \<le> n \<and> n \<le> 122) \<or> (48 \<le> n \<and> n \<le> 57) \<or>
         c = CHR ''_'' \<or> c = CHR ''.'' \<or> c = CHR ''-'' \<or> c = CHR ''~'')"

definition hex_digit :: "nat \<Rightarrow> char" where
  "hex_digit n = ''0123456789ABCDEF'' ! n"

definition quote_char :: "char \<Rightarrow> string" where
  "quote_char c =
     (if always_safe c \<or> c = CHR ''/'' then [c]
      else [CHR ''%'', hex_digit ((of_char c :: nat) div 16), hex_digit ((of_char c :: nat) mod 16)])"

fun quote :: "pyval \<Rightarrow> pyerr + string" where
  "quote (PStr s) = Inr (concat (map quote_char s))"
| "quote v = Inl TypeError"

subsection \<open>The built-in \<open>sorted\<close>\<close>

text \<open>
  \<open>sorted\<close> is stable, also with \<open>reverse=True\<close> (CPython reverses, sorts, reverses again).
  Numbers compare by their exact values, strings by code points; a list of fewer than two
  items is returned without any comparison; any other mix of keys (a number and a string,
  anything and \<open>None\<close>) makes a comparison raise TypeError.
\<close>

fun is_number :: "pyval \<Rightarrow> bool" where
  "is_number (PInt i) = True"
| "is_number (PFloat x) = True"
| "is_number v = False"

fun is_str :: "pyval \<Rightarrow> bool" where
  "is_str (PStr s) = True"
| "is_str v = False"

fun num_ord :: "pyval \<Rightarrow> int \<times> rat" where
  "num_ord (PInt i) = (0, of_int i)"
| "num_ord (PFloat (Fin q)) = (0, q)"
| "num_ord (PFloat NegZero) = (0, 0)"
| "num_ord (PFloat PosInf) = (1, 0)"
| "num_ord (PFloat NegInf) = (- 1, 0)"
| "num_ord v = (0, 0)"

fun str_ord :: "pyval \<Rightarrow> string" where
  "str_ord (PStr s) = s"
| "str_ord v = []"

definition stable_sort :: "('a \<Rightarrow> 'k::linorder) \<Rightarrow> bool \<Rightarrow> 'a list \<Rightarrow> 'a list" where
  "stable_sort k reverse xs = (if reverse then rev (sort_key k (rev xs)) else sort_key k xs)"

definition py_sorted :: "('a \<Rightarrow> pyval) \<Rightarrow> bool \<Rightarrow> 'a list \<Rightarrow> pyerr + 'a list" where
  "py_sorted key reverse xs =
     (if length xs < 2 then Inr xs
      else if list_all (\<lambda>x. is_number (key x)) xs then Inr (stable_sort (\<lambda>x. num_ord (key x)) reverse xs)
      else if list_all (\<lambda>x. is_str (key x)) xs then Inr (stable_sort (\<lambda>x. str_ord (key x)) reverse xs)
      else Inl TypeError)"

section \<open>The data model\<close>

text \<open>
  A track record is the dict \<open>dict(row)\<close> with the extra key \<open>'cues'\<close>: the columns by name,
  and the cue list (\<open>None\<close> when the key is absent). The dicts \<open>track_details\<close> and
  \<open>collections\<close> are association lists in insertion order; their keys are distinct, since
  they are dict keys. A collection is the dict \<open>{'id': ..., 'tracks': [...]}\<close>.
\<close>

record track =
  columns :: "string \<rightharpoonup> pyval"
  cues :: "pyval list option"

record collection =
  coll_id :: int
  tracks :: "int list"

datatype element = Element (tag: string) (attrib: "(string \<times> pyval) list") (children: "element list")

definition get :: "track \<Rightarrow> string \<Rightarrow> pyval" where
  "get data k = (case columns data k of None \<Rightarrow> PNone | Some v \<Rightarrow> v)"

definition get_default :: "track \<Rightarrow> string \<Rightarrow> pyval \<Rightarrow> pyval" where
  "get_default data k d = (case columns data k of None \<Rightarrow> d | Some v \<Rightarrow> v)"

text \<open>\<open>data.get('cues', [])\<close>.\<close>

definition get_cues :: "track \<Rightarrow> pyval list" where
  "get_cues data = (case cues data of None \<Rightarrow> [] | Some cs \<Rightarrow> cs)"

section \<open>build_xml\<close>

text \<open>
  The attribute dict of a TRACK. The three computations that can raise run in the order
  of the source: \<open>quote\<close> for the location, \<open>round\<close> for TotalTime, the format for AverageBpm.
\<close>

definition track_attribs :: "pybuiltins \<Rightarrow> int \<Rightarrow> track \<Rightarrow> pyerr + (string \<times> pyval) list" where
  "track_attribs L track_id data =
     and_then (quote (get_default data ''location'' (PStr ''''))) (\<lambda>quoted.
     and_then (py_round (py_or (get data ''duration'') (PFloat (Fin 0)))) (\<lambda>total_time.
     and_then (py_format_f 2 (get_default data ''bpm'' (PFloat (Fin 0)))) (\<lambda>average_bpm.
     Inr [(''TrackID'', PStr (str_int track_id)),
          (''Name'', py_or (get data ''title'') (PStr '''')),
          (''Artist'', py_or (get data ''artist'') (PStr '''')),
          (''Album'', py_or (get data ''album'') (PStr '''')),
          (''Grouping'', py_or (get data ''grouping'') (PStr '''')),
          (''Genre'', py_or (get data ''genre'') (PStr '''')),
          (''Year'', PStr (py_str L (py_or (get data ''year'') (PStr '''')))),
          (''TrackNumber'', PStr (py_str L (py_or (get data ''tracknumber'') (PStr '''')))),
          (''Comments'', py_or (get data ''comment'') (PStr '''')),
          (''Location'', PStr (''file://localhost'' @ quoted)),
          (''Kind'', PStr ''MP3 File''),
          (''Size'', PStr (py_str L (py_or (get data ''filesize'') (PStr ''0'')))),
          (''TotalTime'', PStr (str_int total_time)),
          (''AverageBpm'', PStr average_bpm),
          (''BitRate'', PStr (py_str L (py_or (get data ''bitrate'') (PStr ''0'')))),
          (''SampleRate'', PStr (py_str L (py_or (get data ''samplerate'') (PStr ''0''))))])))"

definition position_mark :: "pyfloat option \<Rightarrow> pyval \<Rightarrow> pyerr + element" where
  "position_mark samplerate cue_pos =
     and_then (py_truediv cue_pos (Some (Fin 2))) (\<lambda>half.
     and_then (fdiv half samplerate) (\<lambda>pos.
     Inr (Element ''POSITION_MARK''
            [(''Name'', PStr ''''), (''Type'', PStr ''0''),
             (''Start'', PStr (format_f 3 pos)), (''Num'', PStr ''-1'')] [])))"

definition track_node :: "pybuiltins \<Rightarrow> int \<times> track \<Rightarrow> pyerr + element" where
  "track_node L item =
     (case item of (track_id, data) \<Rightarrow>
        and_then (track_attribs L track_id data) (\<lambda>track_attribs.
        and_then (py_float L (py_or (get_default data ''samplerate'' (PFloat (Fin 44100)))
                                    (PFloat (Fin 44100)))) (\<lambda>samplerate.
        and_then (py_sorted id False (get_cues data)) (\<lambda>sorted_cues.
        and_then (map_err (position_mark samplerate) sorted_cues) (\<lambda>marks.
        Inr (Element ''TRACK'' track_attribs marks))))))"

text \<open>The sort key of line 165: \<open>track_details.get(tid, {}).get('bpm', 0.0) or 0.0\<close>.\<close>

definition bpm_key :: "(int \<times> track) list \<Rightarrow> int \<Rightarrow> pyval" where
  "bpm_key track_details tid =
     py_or (case map_of track_details tid of
              None \<Rightarrow> PFloat (Fin 0)
            | Some data \<Rightarrow> get_default data ''bpm'' (PFloat (Fin 0)))
           (PFloat (Fin 0))"

definition sort_requested :: "bool \<Rightarrow> string option \<Rightarrow> bool" where
  "sort_requested is_playlist_mode sort_order =
     (\<not> is_playlist_mode \<and> (case sort_order of None \<Rightarrow> False | Some s \<Rightarrow> s \<noteq> []))"

definition playlist_node ::
  "(int \<times> track) list \<Rightarrow> bool \<Rightarrow> string option \<Rightarrow> string \<times> collection \<Rightarrow> pyerr + element" where
  "playlist_node track_details is_playlist_mode sort_order item =
     (case item of (name, data) \<Rightarrow>
        and_then (if sort_requested is_playlist_mode sort_order
                  then py_sorted (bpm_key track_details) (sort_order = Some ''desc'') (tracks data)
                  else Inr (tracks data)) (\<lambda>track_list.
        Inr (Element ''NODE''
               [(''Name'', PStr name), (''Type'', PStr ''1''), (''KeyType'', PStr ''0''),
                (''Entries'', PStr (str_nat (length (tracks data))))]
               (map (\<lambda>tid. Element ''TRACK'' [(''Key'', PStr (str_int tid))] []) track_list))))"

text \<open>
  The fixed skeleton of the document (lines 132 to 135, 156 and 157): the PRODUCT header,
  the COLLECTION with its count, and the ROOT node with its count.
\<close>

definition document :: "nat \<Rightarrow> nat \<Rightarrow> element list \<Rightarrow> element list \<Rightarrow> element" where
  "document n_tracks n_collections track_nodes nodes =
     Element ''DJ_PLAYLISTS'' [(''Version'', PStr ''1.0.0'')]
       [Element ''PRODUCT''
          [(''Name'', PStr ''rekordbox''), (''Version'', PStr ''6.8.6''),
           (''Company'', PStr ''AlphaTheta'')] [],
        Element ''COLLECTION'' [(''Entries'', PStr (str_nat n_tracks))] track_nodes,
        Element ''PLAYLISTS'' []
          [Element ''NODE''
             [(''Type'', PStr ''0''), (''Name'', PStr ''ROOT''),
              (''Count'', PStr (str_nat n_collections))] nodes]]"

text \<open>
  \<open>sorted(d.items())\<close> compares the pairs by their keys alone, the keys of a dict being
  distinct: it is \<open>sort_key fst\<close>.
\<close>

definition build_xml ::
  "pybuiltins \<Rightarrow> (int \<times> track) list \<Rightarrow> (string \<times> collection) list \<Rightarrow> bool \<Rightarrow> string option
     \<Rightarrow> pyerr + element" where
  "build_xml L track_details collections is_playlist_mode sort_order =
     and_then (map_err (track_node L) (sort_key fst track_details)) (\<lambda>track_nodes.
     and_then (map_err (playlist_node track_details is_playlist_mode sort_order)
                 (sort_key fst collections)) (\<lambda>nodes.
     Inr (document (length track_details) (length collections) track_nodes nodes)))"

subsection \<open>Reading the document\<close>

text \<open>\<open>findall\<close> along a path of tags, and the attribute of a node.\<close>

definition attr :: "element \<Rightarrow> string \<Rightarrow> pyval option" where
  "attr e k = map_of (attrib e) k"

definition findall :: "string \<Rightarrow> element \<Rightarrow> element list" where
  "findall t e = filter (\<lambda>c. tag c = t) (children e)"

definition collection_tracks :: "element \<Rightarrow> element list" where
  "collection_tracks doc = concat (map (findall ''TRACK'') (findall ''COLLECTION'' doc))"

definition playlist_nodes :: "element \<Rightarrow> element list" where
  "playlist_nodes doc =
     concat (map (findall ''NODE'') (concat (map (findall ''NODE'') (findall ''PLAYLISTS'' doc))))"

definition track_keys :: "element \<Rightarrow> pyval option list" where
  "track_keys node = map (\<lambda>t. attr t ''Key'') (findall ''TRACK'' node)"

definition key_of :: "int \<Rightarrow> pyval option" where
  "key_of tid = Some (PStr (str_int tid))"

subsection \<open>build_xml over a store of list objects\<close>

text \<open>
  To speak about mutation, the track lists are objects in a store: a collection holds the
  address of its list. \<open>sorted\<close> allocates a new list and returns its address; binding
  \<open>track_list = data['tracks']\<close> copies an address.
\<close>

type_synonym store = "int list list"

record collection_obj =
  obj_id :: int
  tracks_at :: nat

definition sorted_new ::
  "(int \<Rightarrow> pyval) \<Rightarrow> bool \<Rightarrow> store \<Rightarrow> nat \<Rightarrow> pyerr + nat \<times> store" where
  "sorted_new key reverse h a =
     and_then (py_sorted key reverse (h ! a)) (\<lambda>ys. Inr (length h, h @ [ys]))"

definition playlist_node_st ::
  "(int \<times> track) list \<Rightarrow> bool \<Rightarrow> string option \<Rightarrow> string \<times> collection_obj \<Rightarrow> store
     \<Rightarrow> pyerr + element \<times> store" where
  "playlist_node_st track_details is_playlist_mode sort_order item h =
     (case item of (name, data) \<Rightarrow>
        and_then (if sort_requested is_playlist_mode sort_order
                  then sorted_new (bpm_key track_details) (sort_order = Some ''desc'') h (tracks_at data)
                  else Inr (tracks_at data, h)) (\<lambda>(track_list, h').
        Inr (Element ''NODE''
               [(''Name'', PStr name), (''Type'', PStr ''1''), (''KeyType'', PStr ''0''),
                (''Entries'', PStr (str_nat (length (h ! tracks_at data))))]
               (map (\<lambda>tid. Element ''TRACK'' [(''Key'', PStr (str_int tid))] []) (h' ! track_list)),
             h')))"

fun playlist_nodes_st ::
  "(int \<times> track) list \<Rightarrow> bool \<Rightarrow> string option \<Rightarrow> (string \<times> collection_obj) list \<Rightarrow> store
     \<Rightarrow> pyerr + element list \<times> store" where
  "playlist_nodes_st td pm so [] h = Inr ([], h)"
| "playlist_nodes_st td pm so (item # items) h =
     and_then (playlist_node_st td pm so item h) (\<lambda>(node, h').
     and_then (playlist_nodes_st td pm so items h') (\<lambda>(nodes, h'').
     Inr (node # nodes, h'')))"

definition build_xml_st ::
  "pybuiltins \<Rightarrow> (int \<times> track) list \<Rightarrow> (string \<times> collection_obj) list \<Rightarrow> bool \<Rightarrow> string option
     \<Rightarrow> store \<Rightarrow> pyerr + element \<times> store" where
  "build_xml_st L track_details collections is_playlist_mode sort_order h =
     and_then (map_err (track_node L) (sort_key fst track_details)) (\<lambda>track_nodes.
     and_then (playlist_nodes_st track_details is_playlist_mode sort_order
                 (sort_key fst collections) h) (\<lambda>(nodes, h').
     Inr (document (length track_details) (length collections) track_nodes nodes, h')))"

definition load_collection :: "store \<Rightarrow> string \<times> collection_obj \<Rightarrow> string \<times> collection" where
  "load_collection h item =
     (case item of (name, data) \<Rightarrow> (name, \<lparr>coll_id = obj_id data, tracks = h ! tracks_at data\<rparr>))"

section \<open>The database loaders\<close>

text \<open>
  The connection answers each query with its rows, or with \<open>None\<close> when \<open>execute\<close> or
  \<open>fetchall\<close> raises \<open>sqlite3.Error\<close>. \<open>select_items t hidden0\<close> is
  \<open>SELECT id, name FROM t [WHERE hidden = 0]\<close>; \<open>select_links t fk ids ordered\<close> is the
  membership query; \<open>select_library\<close> and \<open>select_cues\<close> are the two queries of
  \<open>get_track_details\<close>. Every call is recorded in a log.
\<close>

record conn =
  select_items :: "string \<Rightarrow> bool \<Rightarrow> (string \<times> int) list option"
  select_links :: "string \<Rightarrow> string \<Rightarrow> int list \<Rightarrow> bool \<Rightarrow> (int \<times> int) list option"
  select_library :: "int set \<Rightarrow> (int \<times> (string \<rightharpoonup> pyval)) list option"
  select_cues :: "int set \<Rightarrow> (int \<times> pyval) list option"

datatype query =
    Select_items string bool
  | Select_links string string "int list" bool
  | Select_library "int set"
  | Select_cues "int set"

definition table_map :: "string \<Rightarrow> (string \<times> string \<times> string) option" where
  "table_map mode =
     (if mode = ''crates'' then Some (''crates'', ''crate_tracks'', ''crate_id'')
      else if mode = ''playlists'' then Some (''Playlists'', ''PlaylistTracks'', ''playlist_id'')
      else None)"

definition lookup :: "('k \<times> 'v) list \<Rightarrow> 'k \<Rightarrow> pyerr + 'v" where
  "lookup d k = (case map_of d k of None \<Rightarrow> Inl KeyError | Some v \<Rightarrow> Inr v)"

definition final_names ::
  "string list option \<Rightarrow> string list option \<Rightarrow> (string \<times> int) list \<Rightarrow> string list" where
  "final_names include_names exclude_names all_db_items =
     (case include_names of
        Some inc \<Rightarrow> filter (\<lambda>n. map_of all_db_items n \<noteq> None) inc
      | None \<Rightarrow>
          (case exclude_names of
             None \<Rightarrow> map fst all_db_items
           | Some exc \<Rightarrow>
               if exc \<noteq> [] then filter (\<lambda>name. name \<notin> set exc) (map fst all_db_items)
               else map fst all_db_items))"

fun new_collections ::
  "(string \<times> int) list \<Rightarrow> string list \<Rightarrow> (string \<times> collection) list
     \<Rightarrow> pyerr + (string \<times> collection) list" where
  "new_collections all_db_items [] acc = Inr acc"
| "new_collections all_db_items (name # names) acc =
     and_then (lookup all_db_items name) (\<lambda>i.
     new_collections all_db_items names (AList.update name \<lparr>coll_id = i, tracks = []\<rparr> acc))"

definition add_link ::
  "(int \<times> string) list \<Rightarrow> int \<times> int \<Rightarrow> (string \<times> collection) list \<times> int set
     \<Rightarrow> (string \<times> collection) list \<times> int set" where
  "add_link id_to_name row acc =
     (case row of (fk, track_id) \<Rightarrow>
        (case acc of (collection_data, all_track_ids) \<Rightarrow>
           (case map_of id_to_name fk of
              None \<Rightarrow> acc
            | Some name \<Rightarrow>
                if name \<noteq> []
                then (AList.map_entry name (\<lambda>c. c\<lparr>tracks := tracks c @ [track_id]\<rparr>) collection_data,
                      insert track_id all_track_ids)
                else acc)))"

definition get_collections ::
  "conn \<Rightarrow> string list option \<Rightarrow> string list option \<Rightarrow> string
     \<Rightarrow> pyerr + ((string \<times> collection) list \<times> int set) \<times> query list" where
  "get_collections db include_names exclude_names mode =
     (case table_map mode of
        None \<Rightarrow> Inl KeyError
      | Some (main_table, link_table, fk_id) \<Rightarrow>
          (let q1 = Select_items main_table (mode = ''playlists'') in
           case select_items db main_table (mode = ''playlists'') of
             None \<Rightarrow> Inr (([], {}), [q1])
           | Some rows \<Rightarrow>
               (let all_db_items = fold (\<lambda>row d. AList.update (fst row) (snd row) d) rows [];
                    names = final_names include_names exclude_names all_db_items
                in if names = [] then Inr (([], {}), [q1])
                   else
                     and_then (new_collections all_db_items names []) (\<lambda>collection_data.
                       (let item_ids = map (\<lambda>c. coll_id (snd c)) collection_data;
                            q2 = Select_links link_table fk_id item_ids (mode = ''playlists'')
                        in case select_links db link_table fk_id item_ids (mode = ''playlists'') of
                             None \<Rightarrow> Inr ((collection_data, {}), [q1, q2])
                           | Some links \<Rightarrow>
                               (let id_to_name =
                                      fold (\<lambda>item d. AList.update (coll_id (snd item)) (fst item) d)
                                        collection_data []
                                in Inr (fold (add_link id_to_name) links (collection_data, {}),
                                        [q1, q2])))))))"

text \<open>
  \<open>get_track_details\<close>: one \<open>try\<close> around both queries, so a failure of the second keeps what
  the first has stored. Only records made here are extended, each with its cue list present.
\<close>

definition add_cue :: "int \<times> pyval \<Rightarrow> (int \<times> track) list \<Rightarrow> (int \<times> track) list" where
  "add_cue row track_details =
     (case row of (tid, position) \<Rightarrow>
        if map_of track_details tid \<noteq> None
        then AList.map_entry tid (\<lambda>t. t\<lparr>cues := map_option (\<lambda>c. c @ [position]) (cues t)\<rparr>) track_details
        else track_details)"

definition store_row :: "int \<times> (string \<rightharpoonup> pyval) \<Rightarrow> (int \<times> track) list \<Rightarrow> (int \<times> track) list" where
  "store_row row track_details =
     AList.update (fst row) \<lparr>columns = snd row, cues = Some []\<rparr> track_details"

definition get_track_details :: "conn \<Rightarrow> int set \<Rightarrow> (int \<times> track) list \<times> query list" where
  "get_track_details db track_ids =
     (if track_ids = {} then ([], [])
      else case select_library db track_ids of
             None \<Rightarrow> ([], [Select_library track_ids])
           | Some rows \<Rightarrow>
               (let track_details = fold store_row rows []
                in case select_cues db track_ids of
                     None \<Rightarrow> (track_details, [Select_library track_ids, Select_cues track_ids])
                   | Some cue_rows \<Rightarrow>
                       (fold add_cue cue_rows track_details,
                        [Select_library track_ids, Select_cues track_ids])))"

section \<open>The sort key as the specification words it\<close>

text \<open>
  The place of a track on the bpm axis: its bpm, and 0 when the track has no record, the
  record has no bpm key, or the bpm is NULL. The first component orders the infinities
  below and above the finite values.
\<close>

definition bpm_or_zero :: "(int \<times> track) list \<Rightarrow> int \<Rightarrow> int \<times> rat" where
  "bpm_or_zero track_details tid =
     (case map_of track_details tid of
        None \<Rightarrow> (0, 0)
      | Some data \<Rightarrow>
          (case columns data ''bpm'' of
             None \<Rightarrow> (0, 0)
           | Some PNone \<Rightarrow> (0, 0)
           | Some v \<Rightarrow> num_ord v))"

text \<open>
  The bpm values that the bpm axis places: a number, NULL, or none at all (no record for
  the id, or a record with no bpm key).
\<close>

definition bpm_sortable :: "(int \<times> track) list \<Rightarrow> int \<Rightarrow> bool" where
  "bpm_sortable track_details tid =
     (case map_of track_details tid of
        None \<Rightarrow> True
      | Some data \<Rightarrow>
          (case columns data ''bpm'' of
             None \<Rightarrow> True
           | Some PNone \<Rightarrow> True
           | Some v \<Rightarrow> is_number v))"

section \<open>Fixed-point strings\<close>



section \<open>Changing one column of one track\<close>

text \<open>The mapping with column \<open>k\<close> of track \<open>tid\<close> set to \<open>v\<close>.\<close>

definition with_column :: "int \<Rightarrow> string \<Rightarrow> pyval \<Rightarrow> (int \<times> track) list \<Rightarrow> (int \<times> track) list" where
  "with_column tid k v track_details =
     map (\<lambda>item. if fst item = tid
                  then (fst item, (snd item)\<lparr>columns := (columns (snd item))(k \<mapsto> v)\<rparr>)
                  else item) track_details"

section \<open>The name selection as the specification words it\<close>

text \<open>
  With include names, the include names that exist in the database; otherwise, with a
  non-empty list of exclude names, the database names not among them; otherwise all
  database names.
\<close>

definition selected_names :: "string list option \<Rightarrow> string list option \<Rightarrow> string set \<Rightarrow> string set" where
  "selected_names include_names exclude_names db_names =
     (case include_names of
        Some inc \<Rightarrow> {n \<in> set inc. n \<in> db_names}
      | None \<Rightarrow>
          (case exclude_names of
             None \<Rightarrow> db_names
           | Some exc \<Rightarrow> if exc = [] then db_names else {n \<in> db_names. n \<notin> set exc}))"

section \<open>Example inputs\<close>

text \<open>
  A choice of the two open built-ins for the examples (none of the examples calls them),
  and a complete library row with NULL in the bpm column.
\<close>

definition builtins0 :: pybuiltins where
  "builtins0 = \<lparr>float_repr = (\<lambda>x. ''''), float_of_str = (\<lambda>s. Inl ValueError)\<rparr>"

definition row_null_bpm :: "string \<rightharpoonup> pyval" where
  "row_null_bpm =
     [''id'' \<mapsto> PInt 1, ''artist'' \<mapsto> PStr ''Artist'', ''title'' \<mapsto> PStr ''Title'',
      ''album'' \<mapsto> PNone, ''year'' \<mapsto> PNone, ''genre'' \<mapsto> PNone, ''grouping'' \<mapsto> PNone,
      ''tracknumber'' \<mapsto> PNone, ''comment'' \<mapsto> PNone, ''samplerate'' \<mapsto> PInt 44100,
      ''bitrate'' \<mapsto> PInt 320, ''bpm'' \<mapsto> PNone, ''datetime_added'' \<mapsto> PNone,
      ''duration'' \<mapsto> PFloat (Fin 180), ''location'' \<mapsto> PStr ''/music/a.mp3'',
      ''filesize'' \<mapsto> PInt 1000]"

text \<open>
  A library of three tracks with bpm 120, 140 and 100; track 5 has two cue points and the
  integer 0 in its year, tracknumber, filesize and bitrate columns. The crate Techno holds
  the ids 5, 2, 9; the crate Mixed also holds the id 77, which has no record.
\<close>

definition demo_row :: "rat \<Rightarrow> string \<rightharpoonup> pyval" where
  "demo_row bpm =
     [''title'' \<mapsto> PStr ''Title'', ''location'' \<mapsto> PStr ''/music/a b.mp3'',
      ''bpm'' \<mapsto> PFloat (Fin bpm), ''samplerate'' \<mapsto> PInt 44100,
      ''duration'' \<mapsto> PFloat (Fin 180), ''year'' \<mapsto> PInt 0, ''tracknumber'' \<mapsto> PInt 0,
      ''filesize'' \<mapsto> PInt 0, ''bitrate'' \<mapsto> PInt 0]"

definition demo_tracks :: "(int \<times> track) list" where
  "demo_tracks =
     [(5, \<lparr>columns = demo_row 120, cues = Some [PInt 88200, PInt 44100]\<rparr>),
      (2, \<lparr>columns = demo_row 140, cues = Some []\<rparr>),
      (9, \<lparr>columns = demo_row 100, cues = Some []\<rparr>)]"

definition demo_crates :: "(string \<times> collection) list" where
  "demo_crates = [(''Techno'', \<lparr>coll_id = 1, tracks = [5, 2, 9]\<rparr>)]"

definition demo_dangling :: "(string \<times> collection) list" where
  "demo_dangling = [(''Mixed'', \<lparr>coll_id = 2, tracks = [5, 77, 2]\<rparr>)]"

text \<open>A track with the integer 0 in all five numeric columns.\<close>

definition demo_zeros :: "(int \<times> track) list" where
  "demo_zeros =
     [(1, \<lparr>columns =
             [''location'' \<mapsto> PStr ''/music/z.mp3'', ''bpm'' \<mapsto> PFloat (Fin 120),
              ''year'' \<mapsto> PInt 0, ''tracknumber'' \<mapsto> PInt 0, ''filesize'' \<mapsto> PInt 0,
              ''bitrate'' \<mapsto> PInt 0, ''samplerate'' \<mapsto> PInt 0],
           cues = Some []\<rparr>)]"

text \<open>The crate Techno with its track list as object 0 of a store.\<close>

definition demo_store :: store where
  "demo_store = [[5, 2, 9]]"

definition demo_objs :: "(string \<times> collection_obj) list" where
  "demo_objs = [(''Techno'', \<lparr>obj_id = 1, tracks_at = 0\<rparr>)]"

text \<open>
  Three tracks of which track 1 has a NULL bpm, and a crate that stores them as 3, 1, 2.
\<close>

definition demo_null_bpm :: "(int \<times> track) list" where
  "demo_null_bpm =
     [(1, \<lparr>columns = [''location'' \<mapsto> PStr ''/music/1.mp3'', ''bpm'' \<mapsto> PNone], cues = Some []\<rparr>),
      (2, \<lparr>columns = [''location'' \<mapsto> PStr ''/music/2.mp3'', ''bpm'' \<mapsto> PFloat (Fin (- 5))],
           cues = Some []\<rparr>),
      (3, \<lparr>columns = [''location'' \<mapsto> PStr ''/music/3.mp3'', ''bpm'' \<mapsto> PFloat (Fin 7)],
           cues = Some []\<rparr>)]"

definition demo_null_crate :: collection where
  "demo_null_crate = \<lparr>coll_id = 1, tracks = [3, 1, 2]\<rparr>"

text \<open>
  A database with three crates, five membership rows (one of them for a crate id that is
  not selected), a library that fails for track 3, and a cue query that always fails.
\<close>

definition demo_db :: conn where
  "demo_db =
     \<lparr>select_items = (\<lambda>t hidden0. if t = ''crates''
                          then Some [(''House'', 1), (''Techno'', 2), (''Ambient'', 3)] else None),
      select_links = (\<lambda>t fk ids ordered. Some [(2, 5), (1, 7), (2, 2), (4, 8), (2, 9)]),
      select_library = (\<lambda>ids. if 3 \<in> ids then None
                          else Some [(1, [''id'' \<mapsto> PInt 1, ''bpm'' \<mapsto> PFloat (Fin 120)]),
                                     (2, [''id'' \<mapsto> PInt 2, ''bpm'' \<mapsto> PNone])]),
      select_cues = (\<lambda>ids. None)\<rparr>"

section \<open>Basic facts\<close>

subsection \<open>Decimal strings\<close>

lemma digit_val_digit_char: "0 \<le> d \<Longrightarrow> d < 10 \<Longrightarrow> digit_val (digit_char d) = d"
proof -
  assume "0 \<le> d" "d < 10"
  then have "d = 0 \<or> d = 1 \<or> d = 2 \<or> d = 3 \<or> d = 4 \<or> d = 5 \<or> d = 6 \<or> d = 7 \<or> d = 8 \<or> d = 9"
    by arith
  then show ?thesis
    by (auto simp: digit_val_def digit_char_def)
qed

lemma digit_char_not_minus: "digit_char d \<noteq> CHR ''-''"
  by (simp add: digit_char_def)

lemma digits_val_digits: "0 \<le> n \<Longrightarrow> digits_val (digits n) = n"
proof (induction n rule: digits.induct)
  case (1 n)
  show ?case
  proof (cases "n < 10")
    case True
    with 1(2) show ?thesis
      by (subst digits.simps) (simp add: digits_val_def digit_val_digit_char)
  next
    case False
    then have ih: "digits_val (digits (n div 10)) = n div 10"
      using 1 by simp
    have "digits_val (digits n) = 10 * digits_val (digits (n div 10)) + digit_val (digit_char (n mod 10))"
      using False by (subst digits.simps) (simp add: digits_val_def)
    also have "\<dots> = 10 * (n div 10) + n mod 10"
      by (simp add: ih digit_val_digit_char)
    finally show ?thesis by simp
  qed
qed

lemma digits_nonempty: "digits n \<noteq> []"
  by (subst digits.simps) simp

lemma hd_digits_not_minus: "hd (digits n) \<noteq> CHR ''-''"
proof (induction n rule: digits.induct)
  case (1 n)
  show ?case
  proof (cases "n < 10")
    case True
    then show ?thesis by (subst digits.simps) (simp add: digit_char_not_minus)
  next
    case False
    then show ?thesis
      using 1 by (subst digits.simps) (simp add: digits_nonempty)
  qed
qed

lemma str_int_inj: "str_int i = str_int j \<Longrightarrow> i = j"
proof -
  assume eq: "str_int i = str_int j"
  have neg: "a < 0 \<Longrightarrow> hd (str_int a) = CHR ''-''" for a
    by (simp add: str_int_def)
  have pos: "\<not> a < 0 \<Longrightarrow> hd (str_int a) \<noteq> CHR ''-''" for a
    by (simp add: str_int_def hd_digits_not_minus)
  have same: "(i < 0) = (j < 0)"
    using eq neg pos by metis
  show ?thesis
  proof (cases "i < 0")
    case True
    then have "digits (- i) = digits (- j)"
      using eq same by (simp add: str_int_def)
    then have "digits_val (digits (- i)) = digits_val (digits (- j))" by simp
    then show ?thesis
      using True same by (simp add: digits_val_digits)
  next
    case False
    then have "digits i = digits j"
      using eq same by (simp add: str_int_def)
    then have "digits_val (digits i) = digits_val (digits j)" by simp
    then show ?thesis
      using False same by (simp add: digits_val_digits)
  qed
qed

lemma key_of_inj: "key_of i = key_of j \<Longrightarrow> i = j"
  by (simp add: key_of_def str_int_inj)

subsection \<open>Powers of two\<close>

lemma pow2_nonneg_power: "0 \<le> e \<Longrightarrow> pow2_nonneg e = 2 ^ nat e"
proof (induction e rule: pow2_nonneg.induct)
  case (1 e)
  show ?case
  proof (cases "e \<le> 0")
    case True
    with 1(2) have "e = 0" by simp
    then show ?thesis by (subst pow2_nonneg.simps) simp
  next
    case False
    then have ih: "pow2_nonneg (e div 2) = 2 ^ nat (e div 2)"
      using 1 by simp
    have split: "nat e = 2 * nat (e div 2) + (if even e then 0 else 1)"
      using False by (auto elim!: evenE oddE simp: nat_mult_distrib nat_add_distrib)
    have "pow2_nonneg e = (if even e then 1 else 2) * (2 ^ nat (e div 2) * 2 ^ nat (e div 2))"
      using False by (subst pow2_nonneg.simps) (simp add: ih Let_def)
    also have "\<dots> = 2 ^ nat e"
      by (subst split) (simp add: mult_2 power_add)
    finally show ?thesis .
  qed
qed

lemma pow2_power: "pow2 e = (if 0 \<le> e then 2 ^ nat e else 1 / 2 ^ nat (- e))"
  by (simp add: pow2_def pow2_nonneg_power)

subsection \<open>Errors and loops\<close>

lemma and_then_Inr: "and_then m f = Inr y \<longleftrightarrow> (\<exists>x. m = Inr x \<and> f x = Inr y)"
  by (cases m) (auto simp: and_then_def)

lemma map_err_Inr: "map_err f xs = Inr ys \<Longrightarrow> list_all2 (\<lambda>x y. f x = Inr y) xs ys"
  by (induction xs arbitrary: ys) (auto simp: and_then_Inr)

lemma map_err_total: "\<forall>x\<in>set xs. \<exists>y. f x = Inr y \<Longrightarrow> \<exists>ys. map_err f xs = Inr ys"
  by (induction xs) (auto simp: and_then_Inr)

lemma map_err_Inr_iff: "(\<exists>ys. map_err f xs = Inr ys) \<longleftrightarrow> (\<forall>x\<in>set xs. \<exists>y. f x = Inr y)"
proof
  assume "\<exists>ys. map_err f xs = Inr ys"
  then obtain ys where "list_all2 (\<lambda>x y. f x = Inr y) xs ys"
    using map_err_Inr by blast
  then show "\<forall>x\<in>set xs. \<exists>y. f x = Inr y"
    by (induction rule: list_all2_induct) auto
qed (rule map_err_total)

lemma list_all2_range:
  "list_all2 (\<lambda>x y. f x = Inr y) xs ys \<Longrightarrow> (\<And>x y. f x = Inr y \<Longrightarrow> P y) \<Longrightarrow> \<forall>y\<in>set ys. P y"
  by (induction rule: list_all2_induct) auto

subsection \<open>The shape of the document\<close>

lemma build_xml_Inr:
  "build_xml L td cs pm so = Inr doc \<longleftrightarrow>
     (\<exists>tn nodes. map_err (track_node L) (sort_key fst td) = Inr tn \<and>
        map_err (playlist_node td pm so) (sort_key fst cs) = Inr nodes \<and>
        doc = document (length td) (length cs) tn nodes)"
  by (auto simp: build_xml_def and_then_Inr)

lemma track_node_shape:
  "track_node L (tid, data) = Inr e \<Longrightarrow> tag e = ''TRACK'' \<and> attr e ''TrackID'' = key_of tid"
  by (auto simp: track_node_def track_attribs_def and_then_Inr attr_def key_of_def)

lemma playlist_node_tag: "playlist_node td pm so item = Inr e \<Longrightarrow> tag e = ''NODE''"
  by (cases item) (auto simp: playlist_node_def and_then_Inr)

lemma filter_tag_all: "\<forall>e\<in>set es. tag e = t \<Longrightarrow> filter (\<lambda>c. tag c = t) es = es"
  by (induction es) auto

lemma collection_tracks_document:
  "\<forall>e\<in>set tn. tag e = ''TRACK'' \<Longrightarrow> collection_tracks (document n m tn nodes) = tn"
  by (simp add: collection_tracks_def findall_def document_def filter_tag_all)

lemma playlist_nodes_document:
  "\<forall>e\<in>set nodes. tag e = ''NODE'' \<Longrightarrow> playlist_nodes (document n m tn nodes) = nodes"
  by (simp add: playlist_nodes_def findall_def document_def filter_tag_all)

lemma collection_entries_document:
  "map (\<lambda>c. attr c ''Entries'') (findall ''COLLECTION'' (document n m tn nodes)) =
     [Some (PStr (str_nat n))]"
  by (simp add: findall_def document_def attr_def)

lemma build_xml_collection_tracks:
  assumes "build_xml L td cs pm so = Inr doc"
  shows "list_all2 (\<lambda>item node. track_node L item = Inr node) (sort_key fst td) (collection_tracks doc)"
proof -
  from assms obtain tn nodes where tn: "map_err (track_node L) (sort_key fst td) = Inr tn"
    and doc: "doc = document (length td) (length cs) tn nodes"
    by (auto simp: build_xml_Inr)
  have all: "list_all2 (\<lambda>item node. track_node L item = Inr node) (sort_key fst td) tn"
    using tn by (rule map_err_Inr)
  have "\<forall>e\<in>set tn. tag e = ''TRACK''"
    using all by (rule list_all2_range) (metis track_node_shape prod.collapse)
  then show ?thesis
    using all doc by (simp add: collection_tracks_document)
qed

lemma build_xml_playlist_nodes:
  assumes "build_xml L td cs pm so = Inr doc"
  shows "list_all2 (\<lambda>item node. playlist_node td pm so item = Inr node)
           (sort_key fst cs) (playlist_nodes doc)"
proof -
  from assms obtain tn nodes where ns: "map_err (playlist_node td pm so) (sort_key fst cs) = Inr nodes"
    and doc: "doc = document (length td) (length cs) tn nodes"
    by (auto simp: build_xml_Inr)
  have all: "list_all2 (\<lambda>item node. playlist_node td pm so item = Inr node) (sort_key fst cs) nodes"
    using ns by (rule map_err_Inr)
  have "\<forall>e\<in>set nodes. tag e = ''NODE''"
    using all by (rule list_all2_range) (rule playlist_node_tag)
  then show ?thesis
    using all doc by (simp add: playlist_nodes_document)
qed

subsection \<open>Sorting\<close>

lemma sorted_items_keys:
  assumes "distinct (map fst xs)"
  shows "sorted_wrt (<) (map fst (sort_key fst xs))"
    and "set (map fst (sort_key fst xs)) = fst ` set xs"
proof -
  have "mset (map fst (sort_key fst xs)) = mset (map fst xs)"
    by simp
  then have "distinct (map fst (sort_key fst xs))"
    using assms by (metis mset_eq_imp_distinct_iff)
  moreover have "sorted (map fst (sort_key fst xs))"
    by (rule sorted_sort_key)
  ultimately show "sorted_wrt (<) (map fst (sort_key fst xs))"
    by (simp add: strict_sorted_iff)
  show "set (map fst (sort_key fst xs)) = fst ` set xs"
    by simp
qed

lemma stable_sort_mset: "mset (stable_sort k r xs) = mset xs"
  by (simp add: stable_sort_def)

lemma stable_sort_sorted:
  "if r then sorted (rev (map k (stable_sort k r xs))) else sorted (map k (stable_sort k r xs))"
  by (simp add: stable_sort_def rev_map [symmetric])

lemma stable_sort_stable:
  "filter (\<lambda>x. k x = v) (stable_sort k r xs) = filter (\<lambda>x. k x = v) xs"
proof (cases r)
  case True
  have "filter (\<lambda>x. k x = v) (rev (sort_key k (rev xs))) = rev (filter (\<lambda>x. k x = v) (sort_key k (rev xs)))"
    by (simp add: rev_filter)
  also have "\<dots> = rev (filter (\<lambda>x. k x = v) (rev xs))"
    by (simp only: sort_key_stable)
  also have "\<dots> = filter (\<lambda>x. k x = v) xs"
    by (simp add: rev_filter)
  finally show ?thesis
    using True by (simp add: stable_sort_def)
next
  case False
  then show ?thesis
    by (simp add: stable_sort_def sort_key_stable)
qed

lemma stable_sort_short: "length xs < 2 \<Longrightarrow> stable_sort k r xs = xs"
  by (cases xs) (auto simp: stable_sort_def)

lemma py_sorted_num:
  "list_all (\<lambda>x. is_number (key x)) xs \<Longrightarrow>
     py_sorted key r xs = Inr (stable_sort (\<lambda>x. num_ord (key x)) r xs)"
  by (simp add: py_sorted_def stable_sort_short)

lemma py_sorted_mset: "py_sorted key r xs = Inr ys \<Longrightarrow> mset ys = mset xs"
  by (auto simp: py_sorted_def stable_sort_mset split: if_splits)

subsection \<open>The sort key\<close>

lemma py_format_f_num: "py_format_f n v = Inr s \<Longrightarrow> is_number v"
  by (cases v) simp_all

lemma track_attribs_bpm:
  "track_attribs L tid data = Inr a \<Longrightarrow>
     \<exists>s. py_format_f 2 (get_default data ''bpm'' (PFloat (Fin 0))) = Inr s"
  unfolding track_attribs_def and_then_Inr by blast

lemma track_node_bpm_num:
  "track_node L (tid, data) = Inr e \<Longrightarrow> is_number (get_default data ''bpm'' (PFloat (Fin 0)))"
  unfolding track_node_def prod.case and_then_Inr
  using track_attribs_bpm py_format_f_num by blast

lemma map_err_member: "map_err f xs = Inr ys \<Longrightarrow> x \<in> set xs \<Longrightarrow> \<exists>y. f x = Inr y"
  by (induction xs arbitrary: ys) (auto simp: and_then_Inr)

lemma bpm_key_num:
  assumes "map_err (track_node L) (sort_key fst td) = Inr tn"
  shows "is_number (bpm_key td tid)"
proof (cases "map_of td tid")
  case None
  then show ?thesis by (simp add: bpm_key_def py_or_def)
next
  case (Some data)
  then have "(tid, data) \<in> set td"
    by (rule map_of_SomeD)
  then have mem: "(tid, data) \<in> set (sort_key fst td)"
    by simp
  obtain e where "track_node L (tid, data) = Inr e"
    using map_err_member [OF assms mem] ..
  then have "is_number (get_default data ''bpm'' (PFloat (Fin 0)))"
    by (rule track_node_bpm_num)
  then show ?thesis
    using Some by (simp add: bpm_key_def py_or_def)
qed

lemma num_ord_falsy: "\<not> truthy v \<Longrightarrow> num_ord v = (0, 0)"
proof (cases v)
  case (PFloat x)
  assume "\<not> truthy v"
  then have "x = Fin 0 \<or> x = NegZero"
    using PFloat by (simp add: is_zero_def)
  then show ?thesis
    using PFloat by (elim disjE) simp_all
qed simp_all

lemma num_ord_py_or:
  "num_ord (py_or v (PFloat (Fin 0))) = (case v of PNone \<Rightarrow> (0, 0) | _ \<Rightarrow> num_ord v)"
proof (cases "truthy v")
  case True
  then show ?thesis by (cases v) (simp_all add: py_or_def)
next
  case False
  then show ?thesis by (cases v) (simp_all add: py_or_def num_ord_falsy)
qed

lemma num_ord_bpm_key: "num_ord (bpm_key td tid) = bpm_or_zero td tid"
proof (cases "map_of td tid")
  case None
  then show ?thesis by (simp add: bpm_key_def bpm_or_zero_def py_or_def)
next
  case (Some data)
  show ?thesis
  proof (cases "columns data ''bpm''")
    case None
    then show ?thesis
      using \<open>map_of td tid = Some data\<close>
      by (simp add: bpm_key_def bpm_or_zero_def py_or_def get_default_def)
  next
    case (Some v)
    have "num_ord (bpm_key td tid) = num_ord (py_or v (PFloat (Fin 0)))"
      using Some \<open>map_of td tid = Some data\<close> by (simp add: bpm_key_def get_default_def)
    also have "\<dots> = (case v of PNone \<Rightarrow> (0, 0) | _ \<Rightarrow> num_ord v)"
      by (rule num_ord_py_or)
    also have "\<dots> = bpm_or_zero td tid"
      using Some \<open>map_of td tid = Some data\<close> by (cases v) (simp_all add: bpm_or_zero_def)
    finally show ?thesis .
  qed
qed

subsection \<open>Nodes of the PLAYLISTS section\<close>

lemma track_keys_node:
  "track_keys (Element t a (map (\<lambda>tid. Element ''TRACK'' [(''Key'', PStr (str_int tid))] []) ys)) =
     map key_of ys"
  by (induction ys) (auto simp: track_keys_def findall_def attr_def key_of_def)

lemma playlist_node_Inr:
  "playlist_node td pm so (name, data) = Inr node \<Longrightarrow>
     attr node ''Name'' = Some (PStr name) \<and>
     attr node ''Entries'' = Some (PStr (str_nat (length (tracks data)))) \<and>
     (\<exists>ys. (if sort_requested pm so then py_sorted (bpm_key td) (so = Some ''desc'') (tracks data)
            else Inr (tracks data)) = Inr ys \<and> track_keys node = map key_of ys)"
  by (auto simp: playlist_node_def and_then_Inr attr_def track_keys_node)

lemma list_all2_map_eq:
  "list_all2 (\<lambda>x y. f x = Inr y) xs ys \<Longrightarrow> (\<And>x y. f x = Inr y \<Longrightarrow> g y = h x) \<Longrightarrow>
     map g ys = map h xs"
  by (induction rule: list_all2_induct) auto

lemma count_key_once:
  assumes "distinct ks" and "t \<in> set ks" and "map g ns = map key_of ks"
  shows "length (filter (\<lambda>n. g n = key_of t) ns) = 1"
proof -
  have "length (filter (\<lambda>n. g n = key_of t) ns) = length (filter (\<lambda>v. v = key_of t) (map g ns))"
    by (simp add: filter_map comp_def)
  also have "\<dots> = length (filter (\<lambda>k. key_of k = key_of t) ks)"
    by (simp add: assms(3) filter_map comp_def)
  also have "\<dots> = length (filter (\<lambda>k. k = t) ks)"
    by (rule arg_cong [where f = length], rule filter_cong) (auto dest: key_of_inj)
  also have "\<dots> = 1"
    using assms(1,2) by (induction ks) (auto simp: filter_empty_conv)
  finally show ?thesis .
qed

lemma playlist_nodes_view:
  assumes "build_xml L td cs pm so = Inr doc"
    and "\<And>name data node. playlist_node td pm so (name, data) = Inr node \<Longrightarrow> P (name, data) node"
  shows "list_all2 P (sort_key fst cs) (playlist_nodes doc)"
proof -
  have "list_all2 (\<lambda>item node. playlist_node td pm so item = Inr node) (sort_key fst cs) (playlist_nodes doc)"
    using assms(1) by (rule build_xml_playlist_nodes)
  then show ?thesis
  proof (rule list_all2_mono)
    fix item node
    assume "playlist_node td pm so item = Inr node"
    then show "P item node"
      using assms(2) [of "fst item" "snd item" node] by simp
  qed
qed

lemma playlist_node_returns:
  assumes "map_err (track_node L) (sort_key fst td) = Inr tn"
  shows "\<exists>node. playlist_node td pm so item = Inr node"
proof -
  obtain name data where item: "item = (name, data)"
    by (cases item)
  have "list_all (\<lambda>t. is_number (bpm_key td t)) (tracks data)"
    by (simp add: list_all_iff bpm_key_num [OF assms])
  then have "\<exists>ys. py_sorted (bpm_key td) (so = Some ''desc'') (tracks data) = Inr ys"
    by (simp add: py_sorted_num)
  then show ?thesis
    unfolding item playlist_node_def prod.case and_then_Inr by auto
qed

lemma build_xml_returns_iff:
  "(\<exists>doc. build_xml L td cs pm so = Inr doc) \<longleftrightarrow>
     (\<exists>tn. map_err (track_node L) (sort_key fst td) = Inr tn)"
proof
  assume "\<exists>tn. map_err (track_node L) (sort_key fst td) = Inr tn"
  then obtain tn where tn: "map_err (track_node L) (sort_key fst td) = Inr tn" ..
  have "\<forall>item\<in>set (sort_key fst cs). \<exists>node. playlist_node td pm so item = Inr node"
    using playlist_node_returns [OF tn] by blast
  then obtain nodes where "map_err (playlist_node td pm so) (sort_key fst cs) = Inr nodes"
    using map_err_total by blast
  with tn show "\<exists>doc. build_xml L td cs pm so = Inr doc"
    by (simp add: build_xml_Inr)
qed (auto simp: build_xml_Inr)

subsection \<open>Falsy values\<close>

lemma falsy_py_or: "\<not> truthy v \<Longrightarrow> py_or v d = py_or PNone d"
  by (simp add: py_or_def)

lemma get_upd: "get (data\<lparr>columns := (columns data)(k \<mapsto> v)\<rparr>) k' = (if k' = k then v else get data k')"
  by (simp add: get_def)

lemma get_default_upd:
  "get_default (data\<lparr>columns := (columns data)(k \<mapsto> v)\<rparr>) k' d = (if k' = k then v else get_default data k' d)"
  by (simp add: get_default_def)

lemma get_cues_upd: "get_cues (data\<lparr>columns := c\<rparr>) = get_cues data"
  by (simp add: get_cues_def)

lemma track_node_falsy:
  assumes "\<not> truthy v"
    and "k \<in> {''year'', ''tracknumber'', ''filesize'', ''bitrate'', ''samplerate''}"
  shows "track_node L (tid, data\<lparr>columns := (columns data)(k \<mapsto> v)\<rparr>) =
         track_node L (tid, data\<lparr>columns := (columns data)(k \<mapsto> PNone)\<rparr>)"
proof -
  have or: "py_or v d = py_or PNone d" for d
    using assms(1) by (rule falsy_py_or)
  have "k = ''year'' \<or> k = ''tracknumber'' \<or> k = ''filesize'' \<or> k = ''bitrate'' \<or> k = ''samplerate''"
    using assms(2) by simp
  then show ?thesis
    by (elim disjE) (simp_all add: track_node_def track_attribs_def get_upd get_default_upd get_cues_upd or)
qed


lemma sort_key_map_fst:
  assumes "\<And>x. fst (f x) = fst x"
  shows "sort_key fst (map f xs) = map f (sort_key fst xs)"
proof (induction xs)
  case Nil
  show ?case by simp
next
  case (Cons x xs)
  have ins: "insort_key fst (f x) (map f ys) = map f (insort_key fst x ys)" for ys
    by (induction ys) (simp_all add: assms)
  show ?case
    by (simp add: Cons ins)
qed

lemma map_err_map: "map_err f (map g xs) = map_err (\<lambda>x. f (g x)) xs"
  by (induction xs) simp_all

lemma map_err_cong: "(\<And>x. x \<in> set xs \<Longrightarrow> f x = g x) \<Longrightarrow> map_err f xs = map_err g xs"
  by (induction xs) simp_all

lemma map_of_with_column:
  "map_of (with_column tid k v td) t =
     map_option (\<lambda>d. if t = tid then d\<lparr>columns := (columns d)(k \<mapsto> v)\<rparr> else d) (map_of td t)"
  by (induction td) (auto simp: with_column_def)

lemma bpm_key_with_column:
  assumes "k \<noteq> ''bpm''"
  shows "bpm_key (with_column tid k v td) = bpm_key td"
proof
  fix t
  show "bpm_key (with_column tid k v td) t = bpm_key td t"
    using assms by (cases "map_of td t") (simp_all add: bpm_key_def map_of_with_column get_default_upd)
qed

lemma track_nodes_with_column:
  assumes "\<And>data. track_node L (tid, data\<lparr>columns := (columns data)(k \<mapsto> v)\<rparr>) =
                  track_node L (tid, data\<lparr>columns := (columns data)(k \<mapsto> w)\<rparr>)"
  shows "map_err (track_node L) (sort_key fst (with_column tid k v td)) =
         map_err (track_node L) (sort_key fst (with_column tid k w td))"
proof -
  let ?f = "\<lambda>u item. if fst item = tid
                  then (fst item, (snd item)\<lparr>columns := (columns (snd item))(k \<mapsto> u)\<rparr>)
                  else item"
  have sorted: "sort_key fst (with_column tid k u td) = map (?f u) (sort_key fst td)" for u
    unfolding with_column_def by (rule sort_key_map_fst) simp
  have "track_node L (?f v item) = track_node L (?f w item)" for item
    using assms [of "snd item"] by (cases item) simp
  then show ?thesis
    by (simp add: sorted map_err_map)
qed

lemma build_xml_falsy:
  assumes "\<not> truthy v"
    and "k \<in> {''year'', ''tracknumber'', ''filesize'', ''bitrate'', ''samplerate''}"
  shows "build_xml L (with_column tid k v td) cs pm so = build_xml L (with_column tid k PNone td) cs pm so"
proof -
  have "k \<noteq> ''bpm''"
    using assms(2) by auto
  then have keys: "bpm_key (with_column tid k u td) = bpm_key td" for u
    by (rule bpm_key_with_column)
  have nodes: "playlist_node (with_column tid k u td) pm so = playlist_node td pm so" for u
    unfolding playlist_node_def keys by (rule refl)
  have tracks: "map_err (track_node L) (sort_key fst (with_column tid k v td)) =
         map_err (track_node L) (sort_key fst (with_column tid k PNone td))"
    by (rule track_nodes_with_column) (rule track_node_falsy [OF assms])
  have len: "length (with_column tid k u td) = length td" for u
    by (simp add: with_column_def)
  show ?thesis
    by (simp add: build_xml_def tracks nodes len)
qed

subsection \<open>The parts of a TRACK node\<close>

lemma list_all2_memberD:
  "list_all2 R xs ys \<Longrightarrow> x \<in> set xs \<Longrightarrow> \<exists>y\<in>set ys. R x y"
  by (induction rule: list_all2_induct) auto

lemma track_node_Inr:
  assumes "track_node L (tid, data) = Inr node"
  obtains a sr ps ms where "track_attribs L tid data = Inr a"
    and "py_float L (py_or (get_default data ''samplerate'' (PFloat (Fin 44100))) (PFloat (Fin 44100))) = Inr sr"
    and "py_sorted id False (get_cues data) = Inr ps"
    and "map_err (position_mark sr) ps = Inr ms"
    and "node = Element ''TRACK'' a ms"
proof -
  from assms obtain a where a: "track_attribs L tid data = Inr a"
    and rest: "\<exists>sr. py_float L (py_or (get_default data ''samplerate'' (PFloat (Fin 44100))) (PFloat (Fin 44100))) = Inr sr \<and>
       (\<exists>ps. py_sorted id False (get_cues data) = Inr ps \<and>
          (\<exists>ms. map_err (position_mark sr) ps = Inr ms \<and> Inr (Element ''TRACK'' a ms) = Inr node))"
    unfolding track_node_def prod.case and_then_Inr by blast
  from rest obtain sr ps ms
    where "py_float L (py_or (get_default data ''samplerate'' (PFloat (Fin 44100))) (PFloat (Fin 44100))) = Inr sr"
      and "py_sorted id False (get_cues data) = Inr ps"
      and "map_err (position_mark sr) ps = Inr ms"
      and "node = Element ''TRACK'' a ms"
    by auto
  with a show ?thesis
    by (rule that)
qed

lemma track_node_attrib:
  "track_node L (tid, data) = Inr node \<Longrightarrow> track_attribs L tid data = Inr (attrib node)"
  by (erule track_node_Inr) simp

lemma track_attribs_Inr:
  "track_attribs L tid data = Inr a \<Longrightarrow>
     map_of a ''Year'' = Some (PStr (py_str L (py_or (get data ''year'') (PStr '''')))) \<and>
     map_of a ''TrackNumber'' = Some (PStr (py_str L (py_or (get data ''tracknumber'') (PStr '''')))) \<and>
     map_of a ''Size'' = Some (PStr (py_str L (py_or (get data ''filesize'') (PStr ''0'')))) \<and>
     map_of a ''BitRate'' = Some (PStr (py_str L (py_or (get data ''bitrate'') (PStr ''0'')))) \<and>
     map_of a ''SampleRate'' = Some (PStr (py_str L (py_or (get data ''samplerate'') (PStr ''0''))))"
  unfolding track_attribs_def and_then_Inr by (elim exE conjE) (drule sym, simp)

lemma falsy_str: "\<not> truthy v \<Longrightarrow> py_str L (py_or v (PStr s)) = s"
  by (simp add: py_or_def)

lemma build_xml_track_node:
  assumes "build_xml L td cs pm so = Inr doc" and "(tid, data) \<in> set td"
  shows "\<exists>node\<in>set (collection_tracks doc). track_node L (tid, data) = Inr node"
proof -
  have "list_all2 (\<lambda>item node. track_node L item = Inr node) (sort_key fst td) (collection_tracks doc)"
    using assms(1) by (rule build_xml_collection_tracks)
  moreover have "(tid, data) \<in> set (sort_key fst td)"
    using assms(2) by simp
  ultimately show ?thesis
    by (rule list_all2_memberD)
qed

lemma falsy_attr:
  assumes "map_of (attrib node) k = Some (PStr (py_str L (py_or v (PStr s))))" and "\<not> truthy v"
  shows "attr node k = Some (PStr s)"
  using assms by (simp add: attr_def falsy_str)


subsection \<open>Cue marks and the fixed-point format\<close>













subsection \<open>The store\<close>

lemma playlist_node_st_Inr:
  assumes "playlist_node_st td pm so (name, data) h = Inr (node, h')"
  shows "\<exists>new. h' = h @ new"
    and "playlist_node td pm so (load_collection h (name, data)) = Inr node"
proof -
  show "\<exists>new. h' = h @ new"
    using assms
    by (auto simp: playlist_node_st_def sorted_new_def and_then_Inr split: if_splits)
  show "playlist_node td pm so (load_collection h (name, data)) = Inr node"
  proof (cases "sort_requested pm so")
    case True
    then obtain ys where ys: "py_sorted (bpm_key td) (so = Some ''desc'') (h ! tracks_at data) = Inr ys"
      and node: "node = Element ''NODE''
               [(''Name'', PStr name), (''Type'', PStr ''1''), (''KeyType'', PStr ''0''),
                (''Entries'', PStr (str_nat (length (h ! tracks_at data))))]
               (map (\<lambda>tid. Element ''TRACK'' [(''Key'', PStr (str_int tid))] []) ys)"
      using assms by (auto simp: playlist_node_st_def sorted_new_def and_then_Inr)
    show ?thesis
      using True ys node by (simp add: playlist_node_def load_collection_def and_then_def)
  next
    case False
    then show ?thesis
      using assms by (auto simp: playlist_node_st_def playlist_node_def load_collection_def and_then_def)
  qed
qed

lemma load_collection_append:
  "tracks_at (snd item) < length h \<Longrightarrow> load_collection (h @ new) item = load_collection h item"
  by (cases item) (simp add: load_collection_def nth_append)

lemma playlist_nodes_st_Inr:
  assumes "playlist_nodes_st td pm so items h = Inr (nodes, h')"
    and "\<forall>item\<in>set items. tracks_at (snd item) < length h"
  shows "(\<exists>new. h' = h @ new) \<and>
         map_err (playlist_node td pm so) (map (load_collection h) items) = Inr nodes"
  using assms
proof (induction items arbitrary: h nodes)
  case Nil
  then show ?case by simp
next
  case (Cons item items)
  obtain name data where item: "item = (name, data)"
    by (cases item)
  from Cons.prems(1) obtain node h1 ns where n1: "playlist_node_st td pm so (name, data) h = Inr (node, h1)"
    and rest: "playlist_nodes_st td pm so items h1 = Inr (ns, h')"
    and nodes: "nodes = node # ns"
    unfolding item by (auto simp: and_then_Inr)
  obtain new1 where h1: "h1 = h @ new1"
    using playlist_node_st_Inr(1) [OF n1] ..
  have first: "playlist_node td pm so (load_collection h item) = Inr node"
    unfolding item using n1 by (rule playlist_node_st_Inr(2))
  have valid: "\<forall>i\<in>set items. tracks_at (snd i) < length h1"
    using Cons.prems(2) h1 by auto
  from Cons.IH [OF rest valid] obtain new2 where h': "h' = h1 @ new2"
    and ns: "map_err (playlist_node td pm so) (map (load_collection h1) items) = Inr ns"
    by blast
  have eq: "map (load_collection h1) items = map (load_collection h) items"
    using Cons.prems(2) by (auto simp: h1 load_collection_append)
  have ns': "map_err (playlist_node td pm so) (map (load_collection h) items) = Inr ns"
    using ns unfolding eq .
  have "h' = h @ (new1 @ new2)"
    by (simp add: h' h1)
  then show ?case
    using first ns' nodes by (auto simp: and_then_def)
qed

lemma build_xml_st_Inr:
  assumes "build_xml_st L td cs pm so h = Inr (doc, h')"
    and "\<forall>item\<in>set cs. tracks_at (snd item) < length h"
  shows "(\<exists>new. h' = h @ new) \<and>
         (\<forall>item\<in>set cs. h' ! tracks_at (snd item) = h ! tracks_at (snd item)) \<and>
         build_xml L td (map (load_collection h) cs) pm so = Inr doc"
proof -
  from assms(1) obtain tn nodes where tn: "map_err (track_node L) (sort_key fst td) = Inr tn"
    and st: "playlist_nodes_st td pm so (sort_key fst cs) h = Inr (nodes, h')"
    and doc: "doc = document (length td) (length cs) tn nodes"
    by (auto simp: build_xml_st_def and_then_Inr)
  have valid: "\<forall>item\<in>set (sort_key fst cs). tracks_at (snd item) < length h"
    using assms(2) by simp
  from playlist_nodes_st_Inr [OF st valid] obtain new where h': "h' = h @ new"
    and nodes: "map_err (playlist_node td pm so) (map (load_collection h) (sort_key fst cs)) = Inr nodes"
    by blast
  have sorted: "sort_key fst (map (load_collection h) cs) = map (load_collection h) (sort_key fst cs)"
    by (rule sort_key_map_fst) (simp add: load_collection_def split: prod.splits)
  have pure: "build_xml L td (map (load_collection h) cs) pm so = Inr doc"
    by (simp add: build_xml_def tn sorted nodes doc and_then_def)
  have frame: "\<forall>item\<in>set cs. h' ! tracks_at (snd item) = h ! tracks_at (snd item)"
    using assms(2) by (simp add: h' nth_append)
  show ?thesis
    using h' frame pure by blast
qed

lemma playlist_node_st_returns:
  assumes "playlist_node td pm so (load_collection h (name, data)) = Inr node"
  shows "\<exists>h'. playlist_node_st td pm so (name, data) h = Inr (node, h')"
proof (cases "sort_requested pm so")
  case True
  then obtain ys where ys: "py_sorted (bpm_key td) (so = Some ''desc'') (h ! tracks_at data) = Inr ys"
    and node: "node = Element ''NODE''
               [(''Name'', PStr name), (''Type'', PStr ''1''), (''KeyType'', PStr ''0''),
                (''Entries'', PStr (str_nat (length (h ! tracks_at data))))]
               (map (\<lambda>tid. Element ''TRACK'' [(''Key'', PStr (str_int tid))] []) ys)"
    using assms by (auto simp: playlist_node_def load_collection_def and_then_Inr)
  show ?thesis
    using True ys node by (simp add: playlist_node_st_def sorted_new_def and_then_def)
next
  case False
  then show ?thesis
    using assms by (auto simp: playlist_node_st_def playlist_node_def load_collection_def and_then_def)
qed

lemma playlist_nodes_st_returns:
  assumes "map_err (playlist_node td pm so) (map (load_collection h) items) = Inr nodes"
    and "\<forall>item\<in>set items. tracks_at (snd item) < length h"
  shows "\<exists>h'. playlist_nodes_st td pm so items h = Inr (nodes, h')"
  using assms
proof (induction items arbitrary: h nodes)
  case Nil
  then show ?case by simp
next
  case (Cons item items)
  obtain name data where item: "item = (name, data)"
    by (cases item)
  from Cons.prems(1) obtain node ns
    where first: "playlist_node td pm so (load_collection h (name, data)) = Inr node"
      and rest: "map_err (playlist_node td pm so) (map (load_collection h) items) = Inr ns"
      and nodes: "nodes = node # ns"
    unfolding item by (auto simp: and_then_Inr)
  obtain h1 where n1: "playlist_node_st td pm so (name, data) h = Inr (node, h1)"
    using playlist_node_st_returns [OF first] ..
  obtain new1 where h1: "h1 = h @ new1"
    using playlist_node_st_Inr(1) [OF n1] ..
  have eq: "map (load_collection h1) items = map (load_collection h) items"
    using Cons.prems(2) by (auto simp: h1 load_collection_append)
  have rest1: "map_err (playlist_node td pm so) (map (load_collection h1) items) = Inr ns"
    using rest unfolding eq .
  have valid: "\<forall>i\<in>set items. tracks_at (snd i) < length h1"
    using Cons.prems(2) h1 by auto
  obtain h' where "playlist_nodes_st td pm so items h1 = Inr (ns, h')"
    using Cons.IH [OF rest1 valid] ..
  then show ?case
    using n1 nodes by (simp add: item and_then_def)
qed


subsection \<open>One NODE under the bpm sort\<close>

lemma bpm_sortable_key: "bpm_sortable td t \<Longrightarrow> is_number (bpm_key td t)"
proof (cases "map_of td t")
  case None
  then show ?thesis by (simp add: bpm_key_def py_or_def)
next
  case (Some data)
  assume s: "bpm_sortable td t"
  show ?thesis
  proof (cases "columns data ''bpm''")
    case None
    then show ?thesis
      using Some by (simp add: bpm_key_def py_or_def get_default_def)
  next
    case (Some v)
    then have "v = PNone \<or> is_number v"
      using s \<open>map_of td t = Some data\<close> by (cases v) (simp_all add: bpm_sortable_def)
    then show ?thesis
      using Some \<open>map_of td t = Some data\<close>
      by (auto simp: bpm_key_def py_or_def get_default_def)
  qed
qed

lemma bpm_key_sortable:
  assumes "map_err (track_node L) (sort_key fst td) = Inr tn"
  shows "bpm_sortable td t"
proof (cases "map_of td t")
  case None
  then show ?thesis by (simp add: bpm_sortable_def)
next
  case (Some data)
  then have "(t, data) \<in> set td"
    by (rule map_of_SomeD)
  then have mem: "(t, data) \<in> set (sort_key fst td)"
    by simp
  obtain e where "track_node L (t, data) = Inr e"
    using map_err_member [OF assms mem] ..
  then have "is_number (get_default data ''bpm'' (PFloat (Fin 0)))"
    by (rule track_node_bpm_num)
  then show ?thesis
    using Some by (cases "columns data ''bpm''") (auto simp: bpm_sortable_def get_default_def split: pyval.splits)
qed

lemma crate_node_sorted:
  assumes "so = ''asc'' \<or> so = ''desc''" and "list_all (bpm_sortable td) (tracks data)"
  shows "\<exists>node ys. playlist_node td False (Some so) (name, data) = Inr node \<and>
           attr node ''Name'' = Some (PStr name) \<and>
           track_keys node = map key_of ys \<and>
           mset ys = mset (tracks data) \<and>
           (if so = ''desc'' then sorted (rev (map (bpm_or_zero td) ys))
            else sorted (map (bpm_or_zero td) ys)) \<and>
           (\<forall>v. filter (\<lambda>t. bpm_or_zero td t = v) ys =
                filter (\<lambda>t. bpm_or_zero td t = v) (tracks data))"
proof -
  have req: "sort_requested False (Some so)"
    using assms(1) by (auto simp: sort_requested_def)
  have "list_all (\<lambda>t. is_number (bpm_key td t)) (tracks data)"
    using assms(2) by (simp add: list_all_iff bpm_sortable_key)
  then have sorted: "py_sorted (bpm_key td) (Some so = Some ''desc'') (tracks data) =
      Inr (stable_sort (bpm_or_zero td) (so = ''desc'') (tracks data))"
    by (simp add: py_sorted_num num_ord_bpm_key)
  let ?ys = "stable_sort (bpm_or_zero td) (so = ''desc'') (tracks data)"
  obtain node where node: "playlist_node td False (Some so) (name, data) = Inr node"
    using req sorted by (simp add: playlist_node_def and_then_def)
  have keys: "track_keys node = map key_of ?ys"
    using playlist_node_Inr [OF node] req sorted by auto
  have name: "attr node ''Name'' = Some (PStr name)"
    using playlist_node_Inr [OF node] by simp
  have ord: "if so = ''desc'' then sorted (rev (map (bpm_or_zero td) ?ys))
             else sorted (map (bpm_or_zero td) ?ys)"
    using stable_sort_sorted [of "so = ''desc''" "bpm_or_zero td" "tracks data"] by simp
  have perm: "mset ?ys = mset (tracks data)"
    by (rule stable_sort_mset)
  have stab: "\<forall>v. filter (\<lambda>t. bpm_or_zero td t = v) ?ys =
                filter (\<lambda>t. bpm_or_zero td t = v) (tracks data)"
    by (simp add: stable_sort_stable)
  show ?thesis
    by (rule exI [of _ node], rule exI [of _ ?ys], intro conjI) (fact node name keys perm ord stab)+
qed

subsection \<open>The dictionaries of the database loaders\<close>

lemma fold_update_keys:
  "fst ` set (fold (\<lambda>row d. AList.update (f row) (g row) d) rows acc) = f ` set rows \<union> fst ` set acc"
  by (induction rows arbitrary: acc) (auto simp: dom_update)

lemma fold_update_distinct:
  "distinct (map fst acc) \<Longrightarrow> distinct (map fst (fold (\<lambda>row d. AList.update (f row) (g row) d) rows acc))"
  by (induction rows arbitrary: acc) (auto simp: distinct_update)

lemma final_names_set:
  "set (final_names include_names exclude_names all_db_items) =
     selected_names include_names exclude_names (fst ` set all_db_items)"
  by (auto simp: final_names_def selected_names_def map_of_eq_None_iff split: option.splits)

lemma new_collections_Inr:
  assumes "set names \<subseteq> fst ` set all_db_items" and "distinct (map fst acc)"
  shows "\<exists>cd. new_collections all_db_items names acc = Inr cd \<and>
           fst ` set cd = set names \<union> fst ` set acc \<and> distinct (map fst cd) \<and>
           (\<forall>item\<in>set cd. item \<in> set acc \<or> tracks (snd item) = [])"
  using assms
proof (induction names arbitrary: acc)
  case Nil
  then show ?case by simp
next
  case (Cons name names)
  from Cons.prems(1) obtain i where i: "map_of all_db_items name = Some i"
    by (cases "map_of all_db_items name") (auto simp: map_of_eq_None_iff)
  let ?acc = "AList.update name \<lparr>coll_id = i, tracks = []\<rparr> acc"
  have d: "distinct (map fst ?acc)"
    using Cons.prems(2) by (simp add: distinct_update)
  have s: "set names \<subseteq> fst ` set all_db_items"
    using Cons.prems(1) by simp
  obtain cd where cd: "new_collections all_db_items names ?acc = Inr cd"
    and keys: "fst ` set cd = set names \<union> fst ` set ?acc" and dist: "distinct (map fst cd)"
    and emp: "\<forall>item\<in>set cd. item \<in> set ?acc \<or> tracks (snd item) = []"
    using Cons.IH [OF s d] by blast
  have sub: "set ?acc \<subseteq> insert (name, \<lparr>coll_id = i, tracks = []\<rparr>) (set acc)"
    by (induction acc) auto
  have "new_collections all_db_items (name # names) acc = Inr cd"
    using cd i by (simp add: lookup_def and_then_def)
  moreover have "fst ` set cd = set (name # names) \<union> fst ` set acc"
    using keys by (auto simp: dom_update)
  moreover have "\<forall>item\<in>set cd. item \<in> set acc \<or> tracks (snd item) = []"
    using emp sub by fastforce
  ultimately show ?case
    using dist by blast
qed

lemma add_link_keys:
  "map fst (fst (add_link id_to_name row acc)) = map fst (fst acc)"
proof -
  have "map fst (AList.map_entry k f al) = map fst al" for k f and al :: "(string \<times> collection) list"
    by (induction al) auto
  then show ?thesis
    by (auto simp: add_link_def split: prod.splits option.splits)
qed

lemma fold_add_link_keys:
  "map fst (fst (fold (add_link id_to_name) links acc)) = map fst (fst acc)"
  by (induction links arbitrary: acc) (simp_all add: add_link_keys)

lemma map_of_store_row:
  "map_of (store_row row acc) = (map_of acc)(fst row \<mapsto> \<lparr>columns = snd row, cues = Some []\<rparr>)"
  by (simp add: store_row_def update_conv')

lemma fold_store_row_keys:
  "map_of (fold store_row rows acc) tid =
     (case map_of (rev rows) tid of
        None \<Rightarrow> map_of acc tid
      | Some c \<Rightarrow> Some \<lparr>columns = c, cues = Some []\<rparr>)"
proof (induction rows arbitrary: acc)
  case Nil
  then show ?case by simp
next
  case (Cons row rows)
  have "map_of (fold store_row (row # rows) acc) tid =
      (case map_of (rev rows) tid of
         None \<Rightarrow> map_of (store_row row acc) tid
       | Some c \<Rightarrow> Some \<lparr>columns = c, cues = Some []\<rparr>)"
    by (simp add: Cons.IH)
  also have "\<dots> = (case map_of (rev (row # rows)) tid of
        None \<Rightarrow> map_of acc tid
      | Some c \<Rightarrow> Some \<lparr>columns = c, cues = Some []\<rparr>)"
    by (cases row) (auto simp: map_of_store_row map_add_def split: option.splits)
  finally show ?case .
qed

lemma fold_store_row_distinct:
  "distinct (map fst acc) \<Longrightarrow> distinct (map fst (fold store_row rows acc))"
  by (induction rows arbitrary: acc) (auto simp: store_row_def distinct_update)

section \<open>AverageBpm of a track without bpm (C1)\<close>

text \<open>
  C1. The claim: AverageBpm is the bpm with two decimals, and a track whose bpm is NULL
  renders AverageBpm="0.00" without raising. On the code, the default of
  \<open>data.get('bpm', 0.0)\<close> applies to a missing key only; the row of a track with a NULL
  bpm holds the key with the value \<open>None\<close>, and the format raises TypeError: build_xml
  returns no document for the one-track library below.
\<close>

theorem build_xml_null_bpm_raises:
  "build_xml builtins0 [(1, \<lparr>columns = row_null_bpm, cues = Some []\<rparr>)]
     [(''Crate'', \<lparr>coll_id = 1, tracks = [1]\<rparr>)] False None = Inl TypeError"
  by code_simp

section \<open>The COLLECTION section (C2)\<close>

text \<open>
  C2. Whenever build_xml returns a document for a metadata mapping, the COLLECTION holds
  exactly one TRACK node for every track id of the mapping, the TrackIDs are those ids in
  strictly ascending order, and the Entries attribute is the number of records of the
  mapping, which is also the number of TRACK nodes.
\<close>

theorem collection_one_track_per_id_ascending:
  assumes "distinct (map fst td)" and "build_xml L td cs pm so = Inr doc"
  shows "(\<exists>ks. sorted_wrt (<) ks \<and> set ks = fst ` set td \<and>
            map (\<lambda>n. attr n ''TrackID'') (collection_tracks doc) = map key_of ks) \<and>
         (\<forall>t\<in>fst ` set td.
            length (filter (\<lambda>n. attr n ''TrackID'' = key_of t) (collection_tracks doc)) = 1) \<and>
         length (collection_tracks doc) = length td \<and>
         map (\<lambda>c. attr c ''Entries'') (findall ''COLLECTION'' doc) = [Some (PStr (str_nat (length td)))]"
proof -
  let ?ks = "map fst (sort_key fst td)"
  have all: "list_all2 (\<lambda>item node. track_node L item = Inr node) (sort_key fst td) (collection_tracks doc)"
    using assms(2) by (rule build_xml_collection_tracks)
  have "map (\<lambda>n. attr n ''TrackID'') (collection_tracks doc) = map (\<lambda>item. key_of (fst item)) (sort_key fst td)"
  proof (rule list_all2_map_eq [OF all])
    fix item node
    assume "track_node L item = Inr node"
    then show "attr node ''TrackID'' = key_of (fst item)"
      using track_node_shape [of L "fst item" "snd item" node] by simp
  qed
  then have ids: "map (\<lambda>n. attr n ''TrackID'') (collection_tracks doc) = map key_of ?ks"
    by (simp add: comp_def)
  have strict: "sorted_wrt (<) ?ks" and keys: "set ?ks = fst ` set td"
    using sorted_items_keys [OF assms(1)] by blast+
  have once: "length (filter (\<lambda>n. attr n ''TrackID'' = key_of t) (collection_tracks doc)) = 1"
    if "t \<in> fst ` set td" for t
  proof (rule count_key_once [OF _ _ ids])
    show "distinct ?ks" using strict by (simp add: strict_sorted_iff)
    show "t \<in> set ?ks" using that keys by simp
  qed
  have len: "length (collection_tracks doc) = length td"
    using list_all2_lengthD [OF all] by simp
  have entries: "map (\<lambda>c. attr c ''Entries'') (findall ''COLLECTION'' doc) = [Some (PStr (str_nat (length td)))]"
    using assms(2) by (auto simp: build_xml_Inr collection_entries_document)
  show ?thesis
    using ids strict keys once len entries by blast
qed

theorem collection_one_track_per_id_ascending_witness:
  "distinct (map fst demo_tracks) \<and>
   (\<exists>doc. build_xml builtins0 demo_tracks demo_crates False None = Inr doc \<and>
      map (\<lambda>n. attr n ''TrackID'') (collection_tracks doc) = [key_of 2, key_of 5, key_of 9] \<and>
      length (filter (\<lambda>n. attr n ''TrackID'' = key_of 5) (collection_tracks doc)) = 1 \<and>
      length (collection_tracks doc) = 3 \<and>
      map (\<lambda>c. attr c ''Entries'') (findall ''COLLECTION'' doc) = [Some (PStr ''3'')])"
proof -
  have d: "distinct (map fst demo_tracks)"
    by (simp add: demo_tracks_def)
  have "case build_xml builtins0 demo_tracks demo_crates False None of
          Inl e \<Rightarrow> False
        | Inr doc \<Rightarrow>
            map (\<lambda>n. attr n ''TrackID'') (collection_tracks doc) = [key_of 2, key_of 5, key_of 9]"
    by code_simp
  then obtain doc where doc: "build_xml builtins0 demo_tracks demo_crates False None = Inr doc"
    and ids: "map (\<lambda>n. attr n ''TrackID'') (collection_tracks doc) = [key_of 2, key_of 5, key_of 9]"
    by (auto split: sum.splits)
  have mem: "5 \<in> fst ` set demo_tracks"
    by (simp add: demo_tracks_def)
  have n: "length demo_tracks = 3" and s: "str_nat 3 = ''3''"
    by (simp add: demo_tracks_def, code_simp)
  note main = collection_one_track_per_id_ascending [OF d doc]
  have once: "length (filter (\<lambda>n. attr n ''TrackID'' = key_of 5) (collection_tracks doc)) = 1"
    using main mem by blast
  have len: "length (collection_tracks doc) = 3"
    using main n by simp
  have entries: "map (\<lambda>c. attr c ''Entries'') (findall ''COLLECTION'' doc) = [Some (PStr ''3'')]"
    using main n s by simp
  show ?thesis
    by (intro conjI exI [of _ doc]) (fact d doc ids once len entries)+
qed

section \<open>The order of the track references (C3, C4, C7)\<close>

text \<open>
  C3. In crate mode with sort order asc or desc, the loop body of the PLAYLISTS section
  (lines 159 to 168) turns a collection whose tracks have a number, NULL or nothing as bpm
  into a NODE that lists the ids of the collection (the same ids, each as often as
  stored), ordered by bpm in the requested direction, where a track with no record, no bpm
  key or a NULL bpm counts as bpm 0, and ids of equal bpm keep their stored relative
  order: the sort itself never raises on a NULL bpm. And whenever build_xml returns a
  document, its NODEs are these nodes, one per collection in the order of the names.
\<close>

theorem crate_nodes_sorted_by_bpm:
  assumes "so = ''asc'' \<or> so = ''desc''"
  shows "(\<forall>name data. list_all (bpm_sortable td) (tracks data) \<longrightarrow>
            (\<exists>node ys. playlist_node td False (Some so) (name, data) = Inr node \<and>
               attr node ''Name'' = Some (PStr name) \<and>
               track_keys node = map key_of ys \<and>
               mset ys = mset (tracks data) \<and>
               (if so = ''desc'' then sorted (rev (map (bpm_or_zero td) ys))
                else sorted (map (bpm_or_zero td) ys)) \<and>
               (\<forall>v. filter (\<lambda>t. bpm_or_zero td t = v) ys =
                    filter (\<lambda>t. bpm_or_zero td t = v) (tracks data)))) \<and>
         (\<forall>doc. build_xml L td cs False (Some so) = Inr doc \<longrightarrow>
            list_all2 (\<lambda>item node. playlist_node td False (Some so) item = Inr node \<and>
                  attr node ''Name'' = Some (PStr (fst item)) \<and>
                  (\<exists>ys. track_keys node = map key_of ys \<and>
                        mset ys = mset (tracks (snd item)) \<and>
                        (if so = ''desc'' then sorted (rev (map (bpm_or_zero td) ys))
                         else sorted (map (bpm_or_zero td) ys)) \<and>
                        (\<forall>v. filter (\<lambda>t. bpm_or_zero td t = v) ys =
                             filter (\<lambda>t. bpm_or_zero td t = v) (tracks (snd item)))))
              (sort_key fst cs) (playlist_nodes doc))"
proof (intro conjI allI impI)
  fix name and data :: collection
  assume "list_all (bpm_sortable td) (tracks data)"
  with assms show "\<exists>node ys. playlist_node td False (Some so) (name, data) = Inr node \<and>
               attr node ''Name'' = Some (PStr name) \<and>
               track_keys node = map key_of ys \<and>
               mset ys = mset (tracks data) \<and>
               (if so = ''desc'' then sorted (rev (map (bpm_or_zero td) ys))
                else sorted (map (bpm_or_zero td) ys)) \<and>
               (\<forall>v. filter (\<lambda>t. bpm_or_zero td t = v) ys =
                    filter (\<lambda>t. bpm_or_zero td t = v) (tracks data))"
    by (rule crate_node_sorted)
next
  fix doc
  assume doc: "build_xml L td cs False (Some so) = Inr doc"
  obtain tn where tn: "map_err (track_node L) (sort_key fst td) = Inr tn"
    using doc by (auto simp: build_xml_Inr)
  show "list_all2 (\<lambda>item node. playlist_node td False (Some so) item = Inr node \<and>
                  attr node ''Name'' = Some (PStr (fst item)) \<and>
                  (\<exists>ys. track_keys node = map key_of ys \<and>
                        mset ys = mset (tracks (snd item)) \<and>
                        (if so = ''desc'' then sorted (rev (map (bpm_or_zero td) ys))
                         else sorted (map (bpm_or_zero td) ys)) \<and>
                        (\<forall>v. filter (\<lambda>t. bpm_or_zero td t = v) ys =
                             filter (\<lambda>t. bpm_or_zero td t = v) (tracks (snd item)))))
              (sort_key fst cs) (playlist_nodes doc)"
  proof (rule playlist_nodes_view [OF doc])
    fix name and data :: collection and node
    assume node: "playlist_node td False (Some so) (name, data) = Inr node"
    have "list_all (bpm_sortable td) (tracks data)"
      by (simp add: list_all_iff bpm_key_sortable [OF tn])
    from crate_node_sorted [OF assms this, of name] node
    show "playlist_node td False (Some so) (name, data) = Inr node \<and>
          attr node ''Name'' = Some (PStr (fst (name, data))) \<and>
          (\<exists>ys. track_keys node = map key_of ys \<and>
                mset ys = mset (tracks (snd (name, data))) \<and>
                (if so = ''desc'' then sorted (rev (map (bpm_or_zero td) ys))
                 else sorted (map (bpm_or_zero td) ys)) \<and>
                (\<forall>v. filter (\<lambda>t. bpm_or_zero td t = v) ys =
                     filter (\<lambda>t. bpm_or_zero td t = v) (tracks (snd (name, data)))))"
      by auto
  qed
qed

theorem crate_nodes_sorted_by_bpm_witness:
  "map (\<lambda>item. columns (snd item) ''bpm'') demo_null_bpm =
     [Some PNone, Some (PFloat (Fin (- 5))), Some (PFloat (Fin 7))] \<and>
   tracks demo_null_crate = [3, 1, 2] \<and>
   list_all (bpm_sortable demo_null_bpm) (tracks demo_null_crate) \<and>
   (\<exists>node ys. playlist_node demo_null_bpm False (Some ''asc'') (''Crate'', demo_null_crate) = Inr node \<and>
      track_keys node = [key_of 2, key_of 1, key_of 3] \<and>
      track_keys node = map key_of ys \<and> mset ys = mset (tracks demo_null_crate) \<and>
      sorted (map (bpm_or_zero demo_null_bpm) ys)) \<and>
   build_xml builtins0 demo_null_bpm [(''Crate'', demo_null_crate)] False (Some ''asc'') = Inl TypeError \<and>
   (\<exists>doc. build_xml builtins0 demo_tracks demo_crates False (Some ''asc'') = Inr doc \<and>
      map track_keys (playlist_nodes doc) = [[key_of 9, key_of 5, key_of 2]] \<and>
      list_all2 (\<lambda>item node. playlist_node demo_tracks False (Some ''asc'') item = Inr node \<and>
            attr node ''Name'' = Some (PStr (fst item)) \<and>
            (\<exists>ys. track_keys node = map key_of ys \<and>
                  mset ys = mset (tracks (snd item)) \<and>
                  sorted (map (bpm_or_zero demo_tracks) ys) \<and>
                  (\<forall>v. filter (\<lambda>t. bpm_or_zero demo_tracks t = v) ys =
                       filter (\<lambda>t. bpm_or_zero demo_tracks t = v) (tracks (snd item)))))
           (sort_key fst demo_crates) (playlist_nodes doc))"
proof -
  have so: "''asc'' = ''asc'' \<or> ''asc'' = ''desc''"
    by simp
  have nd: "(''asc'' = ''desc'') = False"
    by simp
  have cols: "map (\<lambda>item. columns (snd item) ''bpm'') demo_null_bpm =
     [Some PNone, Some (PFloat (Fin (- 5))), Some (PFloat (Fin 7))]"
    by (simp add: demo_null_bpm_def)
  have stored: "tracks demo_null_crate = [3, 1, 2]"
    by (simp add: demo_null_crate_def)
  have sortable: "list_all (bpm_sortable demo_null_bpm) (tracks demo_null_crate)"
    by (simp add: stored bpm_sortable_def demo_null_bpm_def)
  note node_part = crate_nodes_sorted_by_bpm [OF so, of demo_null_bpm, THEN conjunct1, rule_format,
      OF sortable, of "''Crate''", unfolded nd if_False]
  then obtain node ys
    where node: "playlist_node demo_null_bpm False (Some ''asc'') (''Crate'', demo_null_crate) = Inr node"
      and keys: "track_keys node = map key_of ys"
      and perm: "mset ys = mset (tracks demo_null_crate)"
      and ord: "sorted (map (bpm_or_zero demo_null_bpm) ys)"
    by blast
  have "case playlist_node demo_null_bpm False (Some ''asc'') (''Crate'', demo_null_crate) of
          Inl e \<Rightarrow> False
        | Inr n \<Rightarrow> track_keys n = [key_of 2, key_of 1, key_of 3]"
    by code_simp
  then have order: "track_keys node = [key_of 2, key_of 1, key_of 3]"
    using node by simp
  have raises: "build_xml builtins0 demo_null_bpm [(''Crate'', demo_null_crate)] False (Some ''asc'') =
      Inl TypeError"
    by code_simp
  have "case build_xml builtins0 demo_tracks demo_crates False (Some ''asc'') of
          Inl e \<Rightarrow> False
        | Inr doc \<Rightarrow> map track_keys (playlist_nodes doc) = [[key_of 9, key_of 5, key_of 2]]"
    by code_simp
  then obtain doc where doc: "build_xml builtins0 demo_tracks demo_crates False (Some ''asc'') = Inr doc"
    and example: "map track_keys (playlist_nodes doc) = [[key_of 9, key_of 5, key_of 2]]"
    by (auto split: sum.splits)
  note doc_part = crate_nodes_sorted_by_bpm [OF so, of demo_tracks builtins0 demo_crates,
      THEN conjunct2, rule_format, OF doc, unfolded nd if_False]
  have first: "\<exists>node ys. playlist_node demo_null_bpm False (Some ''asc'') (''Crate'', demo_null_crate) = Inr node \<and>
      track_keys node = [key_of 2, key_of 1, key_of 3] \<and>
      track_keys node = map key_of ys \<and> mset ys = mset (tracks demo_null_crate) \<and>
      sorted (map (bpm_or_zero demo_null_bpm) ys)"
    by (rule exI [of _ node], rule exI [of _ ys], intro conjI) (fact node order keys perm ord)+
  have second: "\<exists>doc. build_xml builtins0 demo_tracks demo_crates False (Some ''asc'') = Inr doc \<and>
      map track_keys (playlist_nodes doc) = [[key_of 9, key_of 5, key_of 2]] \<and>
      list_all2 (\<lambda>item node. playlist_node demo_tracks False (Some ''asc'') item = Inr node \<and>
            attr node ''Name'' = Some (PStr (fst item)) \<and>
            (\<exists>ys. track_keys node = map key_of ys \<and>
                  mset ys = mset (tracks (snd item)) \<and>
                  sorted (map (bpm_or_zero demo_tracks) ys) \<and>
                  (\<forall>v. filter (\<lambda>t. bpm_or_zero demo_tracks t = v) ys =
                       filter (\<lambda>t. bpm_or_zero demo_tracks t = v) (tracks (snd item)))))
           (sort_key fst demo_crates) (playlist_nodes doc)"
    by (rule exI [of _ doc], intro conjI) (fact doc example doc_part)+
  show ?thesis
    by (intro conjI) (fact cols stored sortable first raises second)+
qed

text \<open>
  C4. In playlist mode, or when no sort order is given, whenever build_xml returns a
  document, every NODE lists the ids of its collection exactly in the stored order.
\<close>

theorem stored_order_kept_without_sort:
  assumes "build_xml L td cs pm so = Inr doc" and "pm \<or> so = None"
  shows "list_all2 (\<lambda>item node. attr node ''Name'' = Some (PStr (fst item)) \<and>
                      track_keys node = map key_of (tracks (snd item)))
           (sort_key fst cs) (playlist_nodes doc)"
proof (rule playlist_nodes_view [OF assms(1)])
  fix name data node
  assume node: "playlist_node td pm so (name, data) = Inr node"
  have "\<not> sort_requested pm so"
    using assms(2) by (auto simp: sort_requested_def)
  then show "attr node ''Name'' = Some (PStr (fst (name, data))) \<and>
             track_keys node = map key_of (tracks (snd (name, data)))"
    using playlist_node_Inr [OF node] by auto
qed

theorem stored_order_kept_without_sort_witness:
  "\<exists>doc. build_xml builtins0 demo_tracks demo_crates True (Some ''asc'') = Inr doc \<and>
      map track_keys (playlist_nodes doc) = [[key_of 5, key_of 2, key_of 9]] \<and>
      list_all2 (\<lambda>item node. attr node ''Name'' = Some (PStr (fst item)) \<and>
                      track_keys node = map key_of (tracks (snd item)))
           (sort_key fst demo_crates) (playlist_nodes doc)"
proof -
  have "case build_xml builtins0 demo_tracks demo_crates True (Some ''asc'') of
          Inl e \<Rightarrow> False
        | Inr doc \<Rightarrow> map track_keys (playlist_nodes doc) = [[key_of 5, key_of 2, key_of 9]]"
    by code_simp
  then obtain doc where doc: "build_xml builtins0 demo_tracks demo_crates True (Some ''asc'') = Inr doc"
    and keys: "map track_keys (playlist_nodes doc) = [[key_of 5, key_of 2, key_of 9]]"
    by (auto split: sum.splits)
  have pm: "True \<or> Some ''asc'' = None"
    by simp
  note main = stored_order_kept_without_sort [OF doc pm]
  show ?thesis
    by (intro conjI exI [of _ doc]) (fact doc keys main)+
qed

text \<open>
  C7. If the metadata mapping renders at all (build_xml returns for it with no
  collections), then build_xml returns for any collections, in either mode and with any
  sort order, and every NODE references every id of its collection as often as it is
  stored, in particular the ids that have no record in the mapping.
\<close>

theorem dangling_ids_still_referenced:
  assumes "build_xml L td [] pm0 so0 = Inr doc0"
  shows "\<exists>doc. build_xml L td cs pm so = Inr doc \<and>
           list_all2 (\<lambda>item node. attr node ''Name'' = Some (PStr (fst item)) \<and>
                        mset (track_keys node) = mset (map key_of (tracks (snd item))) \<and>
                        (\<forall>t\<in>set (tracks (snd item)). t \<notin> fst ` set td \<longrightarrow>
                           key_of t \<in> set (track_keys node)))
             (sort_key fst cs) (playlist_nodes doc)"
proof -
  have "\<exists>tn. map_err (track_node L) (sort_key fst td) = Inr tn"
    using assms build_xml_returns_iff by blast
  then obtain doc where doc: "build_xml L td cs pm so = Inr doc"
    using build_xml_returns_iff by blast
  have "list_all2 (\<lambda>item node. attr node ''Name'' = Some (PStr (fst item)) \<and>
                        mset (track_keys node) = mset (map key_of (tracks (snd item))) \<and>
                        (\<forall>t\<in>set (tracks (snd item)). t \<notin> fst ` set td \<longrightarrow>
                           key_of t \<in> set (track_keys node)))
             (sort_key fst cs) (playlist_nodes doc)"
  proof (rule playlist_nodes_view [OF doc])
    fix name data node
    assume node: "playlist_node td pm so (name, data) = Inr node"
    then obtain ys where ys: "(if sort_requested pm so
          then py_sorted (bpm_key td) (so = Some ''desc'') (tracks data)
          else Inr (tracks data)) = Inr ys"
      and keys: "track_keys node = map key_of ys"
      and name: "attr node ''Name'' = Some (PStr name)"
      using playlist_node_Inr [OF node] by blast
    have perm: "mset ys = mset (tracks data)"
      using ys by (auto split: if_splits dest: py_sorted_mset)
    have "image_mset key_of (mset ys) = image_mset key_of (mset (tracks data))"
      using perm by simp
    then have m: "mset (track_keys node) = mset (map key_of (tracks data))"
      using keys by simp
    have "key_of t \<in> set (track_keys node)" if "t \<in> set (tracks data)" for t
    proof -
      have "t \<in> set ys"
        using that perm by (metis set_mset_mset)
      then show ?thesis
        using keys by simp
    qed
    then show "attr node ''Name'' = Some (PStr (fst (name, data))) \<and>
               mset (track_keys node) = mset (map key_of (tracks (snd (name, data)))) \<and>
               (\<forall>t\<in>set (tracks (snd (name, data))). t \<notin> fst ` set td \<longrightarrow>
                  key_of t \<in> set (track_keys node))"
      using name m by simp
  qed
  with doc show ?thesis by blast
qed

theorem dangling_ids_still_referenced_witness:
  "\<exists>doc. build_xml builtins0 demo_tracks demo_dangling False (Some ''desc'') = Inr doc \<and>
      map track_keys (playlist_nodes doc) = [[key_of 2, key_of 5, key_of 77]] \<and>
      77 \<notin> fst ` set demo_tracks \<and>
      list_all2 (\<lambda>item node. attr node ''Name'' = Some (PStr (fst item)) \<and>
                   mset (track_keys node) = mset (map key_of (tracks (snd item))) \<and>
                   (\<forall>t\<in>set (tracks (snd item)). t \<notin> fst ` set demo_tracks \<longrightarrow>
                      key_of t \<in> set (track_keys node)))
        (sort_key fst demo_dangling) (playlist_nodes doc)"
proof -
  have "\<not> isl (build_xml builtins0 demo_tracks [] True None)"
    by code_simp
  then obtain doc0 where doc0: "build_xml builtins0 demo_tracks [] True None = Inr doc0"
    by (cases "build_xml builtins0 demo_tracks [] True None") auto
  obtain doc where doc: "build_xml builtins0 demo_tracks demo_dangling False (Some ''desc'') = Inr doc"
    and main: "list_all2 (\<lambda>item node. attr node ''Name'' = Some (PStr (fst item)) \<and>
                   mset (track_keys node) = mset (map key_of (tracks (snd item))) \<and>
                   (\<forall>t\<in>set (tracks (snd item)). t \<notin> fst ` set demo_tracks \<longrightarrow>
                      key_of t \<in> set (track_keys node)))
        (sort_key fst demo_dangling) (playlist_nodes doc)"
    using dangling_ids_still_referenced [OF doc0, of demo_dangling False "Some ''desc''"] by blast
  have "case build_xml builtins0 demo_tracks demo_dangling False (Some ''desc'') of
          Inl e \<Rightarrow> False
        | Inr doc \<Rightarrow> map track_keys (playlist_nodes doc) = [[key_of 2, key_of 5, key_of 77]]"
    by code_simp
  then have keys: "map track_keys (playlist_nodes doc) = [[key_of 2, key_of 5, key_of 77]]"
    using doc by simp
  have dangling: "77 \<notin> fst ` set demo_tracks"
    by (simp add: demo_tracks_def)
  show ?thesis
    by (intro conjI exI [of _ doc]) (fact doc keys dangling main)+
qed

section \<open>Cue marks (C5)\<close>



section \<open>Zero and NULL in the numeric columns (C9)\<close>

text \<open>
  C9. Whenever build_xml returns a document, a track whose year or tracknumber is falsy
  (the integer 0 as well as NULL) has Year="" resp. TrackNumber="", and a falsy filesize,
  bitrate or samplerate is rendered "0". Moreover the whole result of build_xml is the
  same for a falsy value in one of these five columns as for NULL in its place: the
  output does not tell a zero from a missing value.
\<close>

theorem falsy_rendered_as_null:
  assumes "build_xml L td cs pm so = Inr doc" and "(tid, data) \<in> set td"
  shows "(\<exists>node\<in>set (collection_tracks doc). attr node ''TrackID'' = key_of tid \<and>
            (\<not> truthy (get data ''year'') \<longrightarrow> attr node ''Year'' = Some (PStr '''')) \<and>
            (\<not> truthy (get data ''tracknumber'') \<longrightarrow> attr node ''TrackNumber'' = Some (PStr '''')) \<and>
            (\<not> truthy (get data ''filesize'') \<longrightarrow> attr node ''Size'' = Some (PStr ''0'')) \<and>
            (\<not> truthy (get data ''bitrate'') \<longrightarrow> attr node ''BitRate'' = Some (PStr ''0'')) \<and>
            (\<not> truthy (get data ''samplerate'') \<longrightarrow> attr node ''SampleRate'' = Some (PStr ''0''))) \<and>
         (\<forall>k\<in>{''year'', ''tracknumber'', ''filesize'', ''bitrate'', ''samplerate''}.
            \<forall>v t. \<not> truthy v \<longrightarrow>
              build_xml L (with_column t k v td) cs pm so =
              build_xml L (with_column t k PNone td) cs pm so)"
proof -
  obtain node where node: "node \<in> set (collection_tracks doc)"
    and tn: "track_node L (tid, data) = Inr node"
    using build_xml_track_node [OF assms] by blast
  have tid: "attr node ''TrackID'' = key_of tid"
    using track_node_shape [OF tn] by simp
  note a = track_attribs_Inr [OF track_node_attrib [OF tn]]
  have y: "\<not> truthy (get data ''year'') \<longrightarrow> attr node ''Year'' = Some (PStr '''')"
    using a by (intro impI falsy_attr) blast+
  have n: "\<not> truthy (get data ''tracknumber'') \<longrightarrow> attr node ''TrackNumber'' = Some (PStr '''')"
    using a by (intro impI falsy_attr) blast+
  have s: "\<not> truthy (get data ''filesize'') \<longrightarrow> attr node ''Size'' = Some (PStr ''0'')"
    using a by (intro impI falsy_attr) blast+
  have b: "\<not> truthy (get data ''bitrate'') \<longrightarrow> attr node ''BitRate'' = Some (PStr ''0'')"
    using a by (intro impI falsy_attr) blast+
  have r: "\<not> truthy (get data ''samplerate'') \<longrightarrow> attr node ''SampleRate'' = Some (PStr ''0'')"
    using a by (intro impI falsy_attr) blast+
  have second: "\<forall>k\<in>{''year'', ''tracknumber'', ''filesize'', ''bitrate'', ''samplerate''}.
            \<forall>v t. \<not> truthy v \<longrightarrow>
              build_xml L (with_column t k v td) cs pm so =
              build_xml L (with_column t k PNone td) cs pm so"
    by (intro ballI allI impI) (rule build_xml_falsy; assumption)
  show ?thesis
    by (intro conjI rev_bexI [OF node]) (fact tid y n s b r second)+
qed

theorem falsy_rendered_as_null_witness:
  "\<exists>doc data. build_xml builtins0 demo_zeros [] False None = Inr doc \<and>
      (1, data) \<in> set demo_zeros \<and>
      get data ''year'' = PInt 0 \<and> get data ''tracknumber'' = PInt 0 \<and>
      get data ''filesize'' = PInt 0 \<and> get data ''bitrate'' = PInt 0 \<and>
      get data ''samplerate'' = PInt 0 \<and>
      (\<exists>node\<in>set (collection_tracks doc). attr node ''TrackID'' = key_of 1 \<and>
         attr node ''Year'' = Some (PStr '''') \<and> attr node ''TrackNumber'' = Some (PStr '''') \<and>
         attr node ''Size'' = Some (PStr ''0'') \<and> attr node ''BitRate'' = Some (PStr ''0'') \<and>
         attr node ''SampleRate'' = Some (PStr ''0'')) \<and>
      build_xml builtins0 (with_column 1 ''year'' (PInt 0) demo_zeros) [] False None =
      build_xml builtins0 (with_column 1 ''year'' PNone demo_zeros) [] False None"
proof -
  define data where "data = snd (hd demo_zeros)"
  have "\<not> isl (build_xml builtins0 demo_zeros [] False None)"
    by code_simp
  then obtain doc where doc: "build_xml builtins0 demo_zeros [] False None = Inr doc"
    by (cases "build_xml builtins0 demo_zeros [] False None") auto
  have mem: "(1, data) \<in> set demo_zeros"
    by (simp add: data_def demo_zeros_def)
  have cols: "get data ''year'' = PInt 0" "get data ''tracknumber'' = PInt 0"
    "get data ''filesize'' = PInt 0" "get data ''bitrate'' = PInt 0"
    "get data ''samplerate'' = PInt 0"
    by (simp_all add: data_def demo_zeros_def get_def)
  note main = falsy_rendered_as_null [OF doc mem, unfolded cols]
  have zero: "\<not> truthy (PInt 0)"
    by simp
  from main obtain node where node: "node \<in> set (collection_tracks doc)"
    and attrs: "attr node ''TrackID'' = key_of 1" "attr node ''Year'' = Some (PStr '''')"
      "attr node ''TrackNumber'' = Some (PStr '''')" "attr node ''Size'' = Some (PStr ''0'')"
      "attr node ''BitRate'' = Some (PStr ''0'')" "attr node ''SampleRate'' = Some (PStr ''0'')"
    using zero by blast
  have same: "build_xml builtins0 (with_column 1 ''year'' (PInt 0) demo_zeros) [] False None =
      build_xml builtins0 (with_column 1 ''year'' PNone demo_zeros) [] False None"
    using main zero by blast
  show ?thesis
    by (intro exI [of _ doc] exI [of _ data] conjI rev_bexI [OF node]) (fact doc mem cols attrs same)+
qed

section \<open>The collections are not mutated (C10)\<close>

text \<open>
  C10. With the track lists as objects in a store: whenever build_xml returns a document
  for the collections read from the store, the run over the store returns the same
  document, the store after the run is the store before it followed by newly allocated
  lists only, and the list of every collection is the same after the run as before, also
  when the bpm sort is applied.
\<close>

theorem build_xml_leaves_track_lists:
  assumes "build_xml L td (map (load_collection h) cs) pm so = Inr doc"
    and "\<forall>item\<in>set cs. tracks_at (snd item) < length h"
  shows "\<exists>h'. build_xml_st L td cs pm so h = Inr (doc, h') \<and>
           (\<exists>new. h' = h @ new) \<and>
           (\<forall>item\<in>set cs. h' ! tracks_at (snd item) = h ! tracks_at (snd item))"
proof -
  have sorted: "sort_key fst (map (load_collection h) cs) = map (load_collection h) (sort_key fst cs)"
    by (rule sort_key_map_fst) (simp add: load_collection_def split: prod.splits)
  from assms(1) obtain tn nodes where tn: "map_err (track_node L) (sort_key fst td) = Inr tn"
    and nodes: "map_err (playlist_node td pm so) (map (load_collection h) (sort_key fst cs)) = Inr nodes"
    and doc: "doc = document (length td) (length cs) tn nodes"
    by (auto simp: build_xml_Inr sorted)
  have valid: "\<forall>item\<in>set (sort_key fst cs). tracks_at (snd item) < length h"
    using assms(2) by simp
  obtain h' where st: "playlist_nodes_st td pm so (sort_key fst cs) h = Inr (nodes, h')"
    using playlist_nodes_st_returns [OF nodes valid] ..
  have run: "build_xml_st L td cs pm so h = Inr (doc, h')"
    by (simp add: build_xml_st_def tn st doc and_then_def)
  from build_xml_st_Inr [OF run assms(2)] run show ?thesis
    by blast
qed

theorem build_xml_leaves_track_lists_witness:
  "\<exists>doc h'. build_xml builtins0 demo_tracks (map (load_collection demo_store) demo_objs)
                 False (Some ''asc'') = Inr doc \<and>
      build_xml_st builtins0 demo_tracks demo_objs False (Some ''asc'') demo_store = Inr (doc, h') \<and>
      demo_store = [[5, 2, 9]] \<and> h' = [[5, 2, 9], [9, 5, 2]] \<and>
      map track_keys (playlist_nodes doc) = [[key_of 9, key_of 5, key_of 2]] \<and>
      (\<exists>new. h' = demo_store @ new) \<and>
      h' ! 0 = demo_store ! 0"
proof -
  have "\<not> isl (build_xml builtins0 demo_tracks (map (load_collection demo_store) demo_objs)
                 False (Some ''asc''))"
    by code_simp
  then obtain doc where doc: "build_xml builtins0 demo_tracks
      (map (load_collection demo_store) demo_objs) False (Some ''asc'') = Inr doc"
    by (cases "build_xml builtins0 demo_tracks (map (load_collection demo_store) demo_objs)
                 False (Some ''asc'')") auto
  have valid: "\<forall>item\<in>set demo_objs. tracks_at (snd item) < length demo_store"
    by (simp add: demo_objs_def demo_store_def)
  from build_xml_leaves_track_lists [OF doc valid]
  obtain h' where run: "build_xml_st builtins0 demo_tracks demo_objs False (Some ''asc'') demo_store =
      Inr (doc, h')"
    and ext: "\<exists>new. h' = demo_store @ new"
    and frame: "\<forall>item\<in>set demo_objs. h' ! tracks_at (snd item) = demo_store ! tracks_at (snd item)"
    by blast
  have "case build_xml_st builtins0 demo_tracks demo_objs False (Some ''asc'') demo_store of
          Inl e \<Rightarrow> False
        | Inr (d, s) \<Rightarrow> s = [[5, 2, 9], [9, 5, 2]] \<and>
            map track_keys (playlist_nodes d) = [[key_of 9, key_of 5, key_of 2]]"
    by code_simp
  then have h': "h' = [[5, 2, 9], [9, 5, 2]]"
    and keys: "map track_keys (playlist_nodes doc) = [[key_of 9, key_of 5, key_of 2]]"
    using run by simp_all
  have same: "h' ! 0 = demo_store ! 0"
    using frame by (simp add: demo_objs_def)
  have st: "demo_store = [[5, 2, 9]]"
    by (simp add: demo_store_def)
  show ?thesis
    by (rule exI [of _ doc], rule exI [of _ h'], intro conjI) (fact doc run st h' keys ext same)+
qed

section \<open>The name selection of get_collections (C6)\<close>

text \<open>
  C6. When the mode is crates or playlists and the query of the names returns its rows,
  get_collections returns without error, and the keys of the returned mapping are
  distinct and are exactly: with include names, the include names that are names of the
  database (unknown names are dropped); otherwise, with a non-empty list of exclude names,
  the names of the database that are not among them; otherwise all names of the database.
  When that set of names is empty, the result is the empty mapping with the empty id set,
  and the membership query has not been issued.
\<close>

theorem get_collections_keeps_selected_names:
  assumes "table_map mode = Some (main_table, link_table, fk_id)"
    and "select_items db main_table (mode = ''playlists'') = Some rows"
  shows "\<exists>cd ids log. get_collections db include_names exclude_names mode = Inr ((cd, ids), log) \<and>
           distinct (map fst cd) \<and>
           fst ` set cd = selected_names include_names exclude_names (fst ` set rows) \<and>
           (selected_names include_names exclude_names (fst ` set rows) = {} \<longrightarrow>
              cd = [] \<and> ids = {} \<and> log = [Select_items main_table (mode = ''playlists'')])"
proof -
  let ?adi = "fold (\<lambda>row d. AList.update (fst row) (snd row) d) rows []"
  let ?names = "final_names include_names exclude_names ?adi"
  let ?sel = "selected_names include_names exclude_names (fst ` set rows)"
  have adi: "fst ` set ?adi = fst ` set rows"
    using fold_update_keys [of fst snd rows "[]"] by simp
  have names: "set ?names = ?sel"
    by (simp add: final_names_set adi)
  show ?thesis
  proof (cases "?names = []")
    case True
    then have "?sel = {}"
      using names by simp
    moreover have "get_collections db include_names exclude_names mode =
        Inr (([], {}), [Select_items main_table (mode = ''playlists'')])"
      using assms True by (simp add: get_collections_def Let_def)
    ultimately show ?thesis
      by simp
  next
    case False
    then have ne: "?sel \<noteq> {}"
      using names by auto
    have sub: "set ?names \<subseteq> fst ` set ?adi"
      unfolding names adi by (auto simp: selected_names_def split: option.splits if_splits)
    obtain cd where cd: "new_collections ?adi ?names [] = Inr cd"
      and keys: "fst ` set cd = set ?names" and dist: "distinct (map fst cd)"
      using new_collections_Inr [OF sub, of "[]"] by auto
    let ?ids = "map (\<lambda>c. coll_id (snd c)) cd"
    show ?thesis
    proof (cases "select_links db link_table fk_id ?ids (mode = ''playlists'')")
      case None
      then have "get_collections db include_names exclude_names mode =
          Inr ((cd, {}), [Select_items main_table (mode = ''playlists''),
                          Select_links link_table fk_id ?ids (mode = ''playlists'')])"
        using assms False cd by (simp add: get_collections_def Let_def and_then_def)
      then show ?thesis
        using keys dist ne names by simp
    next
      case (Some links)
      let ?itn = "fold (\<lambda>item d. AList.update (coll_id (snd item)) (fst item) d) cd []"
      let ?res = "fold (add_link ?itn) links (cd, {})"
      have res: "get_collections db include_names exclude_names mode =
          Inr ((fst ?res, snd ?res), [Select_items main_table (mode = ''playlists''),
                          Select_links link_table fk_id ?ids (mode = ''playlists'')])"
        using assms False cd Some by (simp add: get_collections_def Let_def and_then_def)
      have k: "map fst (fst ?res) = map fst cd"
        using fold_add_link_keys [of ?itn links "(cd, {})"] by simp
      have d: "distinct (map fst (fst ?res))"
        unfolding k by (rule dist)
      have "set (map fst (fst ?res)) = set (map fst cd)"
        unfolding k by (rule refl)
      then have s: "fst ` set (fst ?res) = ?sel"
        using keys names by simp
      have e: "?sel = {} \<longrightarrow>
          fst ?res = [] \<and> snd ?res = {} \<and> [Select_items main_table (mode = ''playlists''),
                          Select_links link_table fk_id ?ids (mode = ''playlists'')] =
            [Select_items main_table (mode = ''playlists'')]"
        using ne by simp
      show ?thesis
        by (rule exI [of _ "fst ?res"], rule exI [of _ "snd ?res"], rule exI, intro conjI)
          (fact res d s e)+
    qed
  qed
qed

theorem get_collections_keeps_selected_names_witness:
  "table_map ''crates'' = Some (''crates'', ''crate_tracks'', ''crate_id'') \<and>
   select_items demo_db ''crates'' (''crates'' = ''playlists'') =
     Some [(''House'', 1), (''Techno'', 2), (''Ambient'', 3)] \<and>
   (\<exists>cd ids log. get_collections demo_db (Some [''Techno'', ''Unknown'']) None ''crates'' =
        Inr ((cd, ids), log) \<and>
      map fst cd = [''Techno''] \<and> map (\<lambda>item. tracks (snd item)) cd = [[5, 2, 9]] \<and>
      ids = {5, 2, 9} \<and> distinct (map fst cd) \<and>
      fst ` set cd = selected_names (Some [''Techno'', ''Unknown'']) None
                       (fst ` set [(''House'', 1), (''Techno'', 2), (''Ambient'', 3 :: int)])) \<and>
   (\<exists>cd ids log. get_collections demo_db None (Some [''House'']) ''crates'' =
        Inr ((cd, ids), log) \<and>
      map fst cd = [''Techno'', ''Ambient''] \<and> distinct (map fst cd) \<and>
      fst ` set cd = selected_names None (Some [''House''])
                       (fst ` set [(''House'', 1), (''Techno'', 2), (''Ambient'', 3 :: int)])) \<and>
   selected_names (Some [''Unknown'']) None
     (fst ` set [(''House'', 1), (''Techno'', 2), (''Ambient'', 3 :: int)]) = {} \<and>
   get_collections demo_db (Some [''Unknown'']) None ''crates'' =
     Inr (([], {}), [Select_items ''crates'' False])"
proof -
  let ?rows = "[(''House'', 1), (''Techno'', 2), (''Ambient'', 3 :: int)]"
  have tm: "table_map ''crates'' = Some (''crates'', ''crate_tracks'', ''crate_id'')"
    by (simp add: table_map_def)
  have rows: "select_items demo_db ''crates'' (''crates'' = ''playlists'') = Some ?rows"
    by (simp add: demo_db_def)
  note main = get_collections_keeps_selected_names [OF tm rows]
  have none: "selected_names (Some [''Unknown'']) None (fst ` set ?rows) = {}"
    by (simp add: selected_names_def)
  have np: "(''crates'' = ''playlists'') = False"
    by simp
  obtain cd0 ids0 log0
    where "get_collections demo_db (Some [''Unknown'']) None ''crates'' = Inr ((cd0, ids0), log0)"
      and "cd0 = [] \<and> ids0 = {} \<and> log0 = [Select_items ''crates'' False]"
    using main [of "Some [''Unknown'']" None] none unfolding np by blast
  then have empty: "get_collections demo_db (Some [''Unknown'']) None ''crates'' =
      Inr (([], {}), [Select_items ''crates'' False])"
    by simp
  obtain cd1 ids1 log1
    where r1: "get_collections demo_db (Some [''Techno'', ''Unknown'']) None ''crates'' =
        Inr ((cd1, ids1), log1)"
      and d1: "distinct (map fst cd1)"
      and s1: "fst ` set cd1 = selected_names (Some [''Techno'', ''Unknown'']) None (fst ` set ?rows)"
    using main [of "Some [''Techno'', ''Unknown'']" None] by blast
  have "case get_collections demo_db (Some [''Techno'', ''Unknown'']) None ''crates'' of
          Inl e \<Rightarrow> False
        | Inr r \<Rightarrow> map fst (fst (fst r)) = [''Techno''] \<and>
                   map (\<lambda>item. tracks (snd item)) (fst (fst r)) = [[5, 2, 9]] \<and>
                   snd (fst r) = {5, 2, 9}"
    by code_simp
  then have k1: "map fst cd1 = [''Techno'']"
    and t1: "map (\<lambda>item. tracks (snd item)) cd1 = [[5, 2, 9]]"
    and i1: "ids1 = {5, 2, 9}"
    using r1 by simp_all
  obtain cd2 ids2 log2
    where r2: "get_collections demo_db None (Some [''House'']) ''crates'' = Inr ((cd2, ids2), log2)"
      and d2: "distinct (map fst cd2)"
      and s2: "fst ` set cd2 = selected_names None (Some [''House'']) (fst ` set ?rows)"
    using main [of None "Some [''House'']"] by blast
  have "case get_collections demo_db None (Some [''House'']) ''crates'' of
          Inl e \<Rightarrow> False
        | Inr r \<Rightarrow> map fst (fst (fst r)) = [''Techno'', ''Ambient'']"
    by code_simp
  then have k2: "map fst cd2 = [''Techno'', ''Ambient'']"
    using r2 by simp
  have first: "\<exists>cd ids log. get_collections demo_db (Some [''Techno'', ''Unknown'']) None ''crates'' =
        Inr ((cd, ids), log) \<and>
      map fst cd = [''Techno''] \<and> map (\<lambda>item. tracks (snd item)) cd = [[5, 2, 9]] \<and>
      ids = {5, 2, 9} \<and> distinct (map fst cd) \<and>
      fst ` set cd = selected_names (Some [''Techno'', ''Unknown'']) None (fst ` set ?rows)"
    by (rule exI [of _ cd1], rule exI [of _ ids1], rule exI [of _ log1], intro conjI)
      (fact r1 k1 t1 i1 d1 s1)+
  have second: "\<exists>cd ids log. get_collections demo_db None (Some [''House'']) ''crates'' =
        Inr ((cd, ids), log) \<and>
      map fst cd = [''Techno'', ''Ambient''] \<and> distinct (map fst cd) \<and>
      fst ` set cd = selected_names None (Some [''House'']) (fst ` set ?rows)"
    by (rule exI [of _ cd2], rule exI [of _ ids2], rule exI [of _ log2], intro conjI)
      (fact r2 k2 d2 s2)+
  show ?thesis
    by (intro conjI) (fact tm rows first second none empty)+
qed

section \<open>A failing query in get_track_details (C8)\<close>

text \<open>
  C8. get_track_details on the empty id set returns the empty mapping and issues no query.
  On a non-empty id set, when the metadata query returns its rows and the cue query then
  fails, both queries have been issued and the result holds one record per id of the rows,
  with the columns of the last row of that id and an empty cue list; when the metadata
  query itself fails, the result is the empty mapping. The function returns in each case.
\<close>

theorem cue_query_failure_keeps_records:
  "get_track_details db {} = ([], []) \<and>
   (track_ids \<noteq> {} \<longrightarrow> select_library db track_ids = Some rows \<longrightarrow>
    select_cues db track_ids = None \<longrightarrow>
      (\<exists>td. get_track_details db track_ids =
               (td, [Select_library track_ids, Select_cues track_ids]) \<and>
            distinct (map fst td) \<and>
            (\<forall>tid. map_of td tid =
                 map_option (\<lambda>c. \<lparr>columns = c, cues = Some []\<rparr>) (map_of (rev rows) tid)))) \<and>
   (track_ids \<noteq> {} \<longrightarrow> select_library db track_ids = None \<longrightarrow>
      get_track_details db track_ids = ([], [Select_library track_ids]))"
proof (intro conjI impI)
  show "get_track_details db {} = ([], [])"
    by (simp add: get_track_details_def)
next
  assume "track_ids \<noteq> {}" and "select_library db track_ids = Some rows"
    and "select_cues db track_ids = None"
  then have "get_track_details db track_ids =
      (fold store_row rows [], [Select_library track_ids, Select_cues track_ids])"
    by (simp add: get_track_details_def Let_def)
  moreover have "distinct (map fst (fold store_row rows []))"
    by (rule fold_store_row_distinct) simp
  moreover have "\<forall>tid. map_of (fold store_row rows []) tid =
      map_option (\<lambda>c. \<lparr>columns = c, cues = Some []\<rparr>) (map_of (rev rows) tid)"
    by (simp add: fold_store_row_keys split: option.splits)
  ultimately show "\<exists>td. get_track_details db track_ids =
               (td, [Select_library track_ids, Select_cues track_ids]) \<and>
            distinct (map fst td) \<and>
            (\<forall>tid. map_of td tid =
                 map_option (\<lambda>c. \<lparr>columns = c, cues = Some []\<rparr>) (map_of (rev rows) tid))"
    by blast
next
  assume "track_ids \<noteq> {}" and "select_library db track_ids = None"
  then show "get_track_details db track_ids = ([], [Select_library track_ids])"
    by (simp add: get_track_details_def)
qed

theorem cue_query_failure_keeps_records_witness:
  "get_track_details demo_db {} = ([], []) \<and>
   ({1, 2} :: int set) \<noteq> {} \<and>
   select_library demo_db {1, 2} =
     Some [(1, [''id'' \<mapsto> PInt 1, ''bpm'' \<mapsto> PFloat (Fin 120)]),
           (2, [''id'' \<mapsto> PInt 2, ''bpm'' \<mapsto> PNone])] \<and>
   select_cues demo_db {1, 2} = None \<and>
   (\<exists>td. get_track_details demo_db {1, 2} = (td, [Select_library {1, 2}, Select_cues {1, 2}]) \<and>
      map fst td = [1, 2] \<and> map (\<lambda>item. cues (snd item)) td = [Some [], Some []] \<and>
      distinct (map fst td) \<and>
      (\<forall>tid. map_of td tid =
           map_option (\<lambda>c. \<lparr>columns = c, cues = Some []\<rparr>)
             (map_of (rev [(1, [''id'' \<mapsto> PInt 1, ''bpm'' \<mapsto> PFloat (Fin 120)]),
                           (2, [''id'' \<mapsto> PInt 2, ''bpm'' \<mapsto> PNone])]) tid))) \<and>
   ({3} :: int set) \<noteq> {} \<and>
   select_library demo_db {3} = None \<and>
   get_track_details demo_db {3} = ([], [Select_library {3}])"
proof -
  let ?rows = "[(1 :: int, [''id'' \<mapsto> PInt 1, ''bpm'' \<mapsto> PFloat (Fin 120)]),
                (2, [''id'' \<mapsto> PInt 2, ''bpm'' \<mapsto> PNone])]"
  have ne: "({1, 2} :: int set) \<noteq> {}"
    by simp
  have lib: "select_library demo_db {1, 2} = Some ?rows"
    by (simp add: demo_db_def)
  have cue: "select_cues demo_db {1, 2} = None"
    by (simp add: demo_db_def)
  have ne3: "({3} :: int set) \<noteq> {}"
    by simp
  have lib3: "select_library demo_db {3} = None"
    by (simp add: demo_db_def)
  note empty = cue_query_failure_keeps_records [of demo_db "{1, 2}" ?rows, THEN conjunct1]
  note partial = cue_query_failure_keeps_records [of demo_db "{1, 2}" ?rows,
      THEN conjunct2, THEN conjunct1, rule_format, OF ne lib cue]
  note failed = cue_query_failure_keeps_records [of demo_db "{3}" ?rows,
      THEN conjunct2, THEN conjunct2, rule_format, OF ne3 lib3]
  obtain td where r: "get_track_details demo_db {1, 2} = (td, [Select_library {1, 2}, Select_cues {1, 2}])"
    and d: "distinct (map fst td)"
    and m: "\<forall>tid. map_of td tid =
           map_option (\<lambda>c. \<lparr>columns = c, cues = Some []\<rparr>) (map_of (rev ?rows) tid)"
    using partial by blast
  have "map fst (fst (get_track_details demo_db {1, 2})) = [1, 2] \<and>
        map (\<lambda>item. cues (snd item)) (fst (get_track_details demo_db {1, 2})) = [Some [], Some []]"
    by (simp add: get_track_details_def demo_db_def store_row_def)
  then have k: "map fst td = [1, 2]" and c: "map (\<lambda>item. cues (snd item)) td = [Some [], Some []]"
    using r by simp_all
  have mid: "\<exists>td. get_track_details demo_db {1, 2} = (td, [Select_library {1, 2}, Select_cues {1, 2}]) \<and>
      map fst td = [1, 2] \<and> map (\<lambda>item. cues (snd item)) td = [Some [], Some []] \<and>
      distinct (map fst td) \<and>
      (\<forall>tid. map_of td tid =
           map_option (\<lambda>c. \<lparr>columns = c, cues = Some []\<rparr>) (map_of (rev ?rows) tid))"
    by (rule exI [of _ td], intro conjI) (fact r k c d m)+
  show ?thesis
    by (intro conjI) (fact empty ne lib cue mid ne3 lib3 failed)+
qed

end
